theory Spec2Isabelle
  imports Main
begin

section \<open>Mobile navigation overlay (mobilize\_nav.js): the model\<close>

text \<open>
  The functions of \<^verbatim>\<open>pagespeed.MobNav\<close> that find the navigational sections of a
  page, label their links with a depth, build the menu panel, remove its duplicate entries,
  find the elements to offset and redraw the header.

  The DOM is a tree of nodes. A node is referred to by its path from a root (the list of
  child indices), which plays the part of the object reference of the JavaScript source:
  two distinct paths are two distinct nodes, also when their contents are equal. Functions
  that mutate the DOM return the tree after the mutation. A JavaScript exception is a
  value of type \<open>error\<close>, returned in \<open>Inl\<close>.
\<close>

subsection \<open>Strings\<close>

text \<open>
  \<^verbatim>\<open>toUpperCase\<close> and \<^verbatim>\<open>toLowerCase\<close> of \<^verbatim>\<open>String.prototype\<close>, on the ASCII
  letters (a \<open>char\<close> is a byte).
\<close>

definition toUpperChar :: "char \<Rightarrow> char" where
  "toUpperChar c =
     (case map_of (zip ''abcdefghijklmnopqrstuvwxyz'' ''ABCDEFGHIJKLMNOPQRSTUVWXYZ'') c of
        Some u \<Rightarrow> u | None \<Rightarrow> c)"

definition toUpperCase :: "string \<Rightarrow> string" where
  "toUpperCase s = map toUpperChar s"

definition toLowerChar :: "char \<Rightarrow> char" where
  "toLowerChar c =
     (case map_of (zip ''ABCDEFGHIJKLMNOPQRSTUVWXYZ'' ''abcdefghijklmnopqrstuvwxyz'') c of
        Some u \<Rightarrow> u | None \<Rightarrow> c)"

definition toLowerCase :: "string \<Rightarrow> string" where
  "toLowerCase s = map toLowerChar s"

text \<open>\<^verbatim>\<open>String(n)\<close> for a non-negative integer: its decimal digits.\<close>

function String_nat :: "nat \<Rightarrow> string" where
  "String_nat n =
     (if n < 10 then [''0123456789'' ! n]
      else String_nat (n div 10) @ [''0123456789'' ! (n mod 10)])"
  by pat_completeness auto
termination by (relation "measure id") auto

declare String_nat.simps [simp del]

text \<open>
  The relational operator \<^verbatim>\<open><\<close> on two strings compares them by code units, as
  \<open>strLess\<close> does; when an operand is not a string, both are converted to numbers.
  \<open>toNumber\<close> is that conversion for \<^verbatim>\<open>null\<close> (\<open>None\<close>, which is 0) and for the
  strings of decimal digits (the empty string is 0); every other string is taken to be
  \<^verbatim>\<open>NaN\<close> (\<open>None\<close> as a result), which no comparison satisfies. The strings
  compared in this file are written by \<open>String_nat\<close>. \<open>jsMinus\<close> is the operator
  \<^verbatim>\<open>-\<close>, which always converts to numbers.
\<close>

fun strLess :: "string \<Rightarrow> string \<Rightarrow> bool" where
  "strLess [] [] = False"
| "strLess [] (y # ys) = True"
| "strLess (x # xs) [] = False"
| "strLess (x # xs) (y # ys) =
     (if x = y then strLess xs ys else (of_char x :: nat) < of_char y)"

definition isDigit :: "char \<Rightarrow> bool" where
  "isDigit c = (c \<in> set ''0123456789'')"

definition digitValue :: "char \<Rightarrow> nat option" where
  "digitValue c = map_of (zip ''0123456789'' [0, 1, 2, 3, 4, 5, 6, 7, 8, 9]) c"

fun decimalValue :: "nat \<Rightarrow> string \<Rightarrow> nat option" where
  "decimalValue acc [] = Some acc"
| "decimalValue acc (c # cs) =
     (case digitValue c of None \<Rightarrow> None | Some d \<Rightarrow> decimalValue (10 * acc + d) cs)"

definition toNumber :: "string option \<Rightarrow> int option" where
  "toNumber v = (case v of None \<Rightarrow> Some 0 | Some s \<Rightarrow> map_option int (decimalValue 0 s))"

definition jsLess :: "string option \<Rightarrow> string option \<Rightarrow> bool" where
  "jsLess a b =
     (case (a, b) of
        (Some x, Some y) \<Rightarrow> strLess x y
      | _ \<Rightarrow> (case (toNumber a, toNumber b) of (Some m, Some n) \<Rightarrow> m < n | _ \<Rightarrow> False))"

definition jsMinus :: "string option \<Rightarrow> string option \<Rightarrow> int option" where
  "jsMinus a b = (case (toNumber a, toNumber b) of (Some m, Some n) \<Rightarrow> Some (m - n) | _ \<Rightarrow> None)"

text \<open>
  \<^verbatim>\<open>goog.string.trim\<close> removes the white space at both ends (here the ASCII white
  space); \<^verbatim>\<open>goog.string.startsWith\<close>.
\<close>

definition isSpace :: "char \<Rightarrow> bool" where
  "isSpace c = (c \<in> set [CHR '' '', CHR 0x09, CHR 0x0A, CHR 0x0B, CHR 0x0C, CHR 0x0D])"

definition trim :: "string \<Rightarrow> string" where
  "trim s = rev (dropWhile isSpace (rev (dropWhile isSpace s)))"

definition startsWith :: "string \<Rightarrow> string \<Rightarrow> bool" where
  "startsWith s pre = (take (length pre) s = pre)"

subsection \<open>DOM nodes\<close>

text \<open>
  What layout reports of an element: whether \<^verbatim>\<open>offsetParent\<close> is not null, and
  the \<^verbatim>\<open>position\<close> and \<^verbatim>\<open>top\<close> of \<^verbatim>\<open>getComputedStyle\<close>.
\<close>

record layout =
  offsetParent :: bool
  cssPosition :: string
  cssTop :: string

text \<open>
  An element has a name, its attributes in order, its layout and its children. The other
  nodes are text nodes and comments.
\<close>

datatype dom =
    Element string "(string \<times> string) list" layout "dom list"
  | Text string
  | Comment string

type_synonym path = "nat list"

datatype error = TypeError | HierarchyRequestError

fun nodeName :: "dom \<Rightarrow> string" where
  "nodeName (Element n as l cs) = n"
| "nodeName (Text t) = ''#text''"
| "nodeName (Comment t) = ''#comment''"

fun nodeType :: "dom \<Rightarrow> nat" where
  "nodeType (Element n as l cs) = 1"
| "nodeType (Text t) = 3"
| "nodeType (Comment t) = 8"

definition isElement :: "dom \<Rightarrow> bool" where
  "isElement node = (nodeType node = 1)"

fun childNodes :: "dom \<Rightarrow> dom list" where
  "childNodes (Element n as l cs) = cs"
| "childNodes (Text t) = []"
| "childNodes (Comment t) = []"

text \<open>\<^verbatim>\<open>node.nodeName.toUpperCase() == t\<close>.\<close>

definition isTag :: "string \<Rightarrow> dom \<Rightarrow> bool" where
  "isTag t node = (toUpperCase (nodeName node) = t)"

fun setAttr :: "string \<Rightarrow> string \<Rightarrow> (string \<times> string) list \<Rightarrow> (string \<times> string) list" where
  "setAttr k v [] = [(k, v)]"
| "setAttr k v ((k', v') # as) = (if k' = k then (k, v) # as else (k', v') # setAttr k v as)"

fun setAttribute :: "dom \<Rightarrow> string \<Rightarrow> string \<Rightarrow> dom" where
  "setAttribute (Element n as l cs) k v = Element n (setAttr k v as) l cs"
| "setAttribute node k v = node"

fun getAttribute :: "dom \<Rightarrow> string \<Rightarrow> string option" where
  "getAttribute (Element n as l cs) k = map_of as k"
| "getAttribute node k = None"

text \<open>
  The properties \<^verbatim>\<open>id\<close> and \<^verbatim>\<open>className\<close> reflect the attributes and are the
  empty string when the attribute is absent.
\<close>

definition idOf :: "dom \<Rightarrow> string" where
  "idOf node = (case getAttribute node ''id'' of Some v \<Rightarrow> v | None \<Rightarrow> [])"

definition className :: "dom \<Rightarrow> string" where
  "className node = (case getAttribute node ''class'' of Some v \<Rightarrow> v | None \<Rightarrow> [])"

fun withChildren :: "dom \<Rightarrow> dom list \<Rightarrow> dom" where
  "withChildren (Element n as l cs) cs' = Element n as l cs'"
| "withChildren node cs' = node"

fun computedStyle :: "dom \<Rightarrow> layout" where
  "computedStyle (Element n as l cs) = l"
| "computedStyle node = \<lparr>offsetParent = False, cssPosition = ''static'', cssTop = ''auto''\<rparr>"

text \<open>
  \<^verbatim>\<open>node.offsetParent === null\<close>: only an element has the property; on a text node
  or a comment it is undefined, which is not null.
\<close>

definition offsetParentIsNull :: "dom \<Rightarrow> bool" where
  "offsetParentIsNull node = (case node of Element n as l cs \<Rightarrow> \<not> offsetParent l | _ \<Rightarrow> False)"

fun textContent :: "dom \<Rightarrow> string" where
  "textContent (Element n as l cs) = concat (map textContent cs)"
| "textContent (Text t) = t"
| "textContent (Comment t) = []"

text \<open>
  \<^verbatim>\<open>document.createElement\<close>: an element without attributes and children. Layout
  has nothing to report of it yet.
\<close>

definition createElement :: "string \<Rightarrow> dom" where
  "createElement tagName =
     Element tagName [] \<lparr>offsetParent = False, cssPosition = ''static'', cssTop = ''auto''\<rparr> []"

fun appendChild :: "dom \<Rightarrow> dom \<Rightarrow> dom" where
  "appendChild (Element n as l cs) c = Element n as l (cs @ [c])"
| "appendChild node c = node"

text \<open>The number of nodes of a subtree, the measure of the recursions below.\<close>

fun nodes :: "dom \<Rightarrow> nat" where
  "nodes (Element n as l cs) = Suc (sum_list (map nodes cs))"
| "nodes (Text t) = 1"
| "nodes (Comment t) = 1"

lemma nodes_setAttribute [simp]: "nodes (setAttribute c k v) = nodes c"
  by (cases c) simp_all

lemma nodes_pos [simp]: "0 < nodes c"
  by (cases c) simp_all

lemma nodes_childNodes: "Suc (2 * sum_list (map nodes (childNodes c))) < 2 * nodes c"
  by (cases c) simp_all

subsection \<open>Paths\<close>

text \<open>
  The node at a path; a change at a path; \<^verbatim>\<open>parent.appendChild(c)\<close> and
  \<^verbatim>\<open>parent.childNodes.length\<close> for the parent at a path; and
  \<^verbatim>\<open>node.parentNode.removeChild(node)\<close> for the node at a path.
\<close>

fun nodeAt :: "dom \<Rightarrow> path \<Rightarrow> dom option" where
  "nodeAt node [] = Some node"
| "nodeAt node (i # p) =
     (if i < length (childNodes node) then nodeAt (childNodes node ! i) p else None)"

fun updateAt :: "path \<Rightarrow> (dom \<Rightarrow> dom) \<Rightarrow> dom \<Rightarrow> dom" where
  "updateAt [] f node = f node"
| "updateAt (i # p) f node =
     (if i < length (childNodes node)
      then withChildren node ((childNodes node)[i := updateAt p f (childNodes node ! i)])
      else node)"

definition appendChildAt :: "path \<Rightarrow> dom \<Rightarrow> dom \<Rightarrow> dom" where
  "appendChildAt p c root = updateAt p (\<lambda>parent. appendChild parent c) root"

definition childCountAt :: "dom \<Rightarrow> path \<Rightarrow> nat" where
  "childCountAt root p = (case nodeAt root p of Some n \<Rightarrow> length (childNodes n) | None \<Rightarrow> 0)"

fun removeChild :: "path \<Rightarrow> dom \<Rightarrow> dom" where
  "removeChild [] doc = doc"
| "removeChild [i] doc = withChildren doc (take i (childNodes doc) @ drop (Suc i) (childNodes doc))"
| "removeChild (i # p) doc =
     (if i < length (childNodes doc)
      then withChildren doc ((childNodes doc)[i := removeChild p (childNodes doc ! i)])
      else doc)"

text \<open>
  The paths of the proper descendants of a node in document order, and
  \<^verbatim>\<open>getElementsByTagName\<close>, which returns the descendants with a tag name in that
  order (HTML tag names match whatever their case).
\<close>

fun descendants :: "dom \<Rightarrow> path list"
  and descendantsFrom :: "nat \<Rightarrow> dom list \<Rightarrow> path list" where
  "descendants (Element n as l cs) = descendantsFrom 0 cs"
| "descendants (Text t) = []"
| "descendants (Comment t) = []"
| "descendantsFrom i [] = []"
| "descendantsFrom i (c # cs) = [i] # map ((#) i) (descendants c) @ descendantsFrom (Suc i) cs"

definition getElementsByTagName :: "dom \<Rightarrow> string \<Rightarrow> path list" where
  "getElementsByTagName root t =
     filter (\<lambda>p. case nodeAt root p of Some n \<Rightarrow> isTag (toUpperCase t) n | None \<Rightarrow> False)
       (descendants root)"

definition elementPaths :: "dom \<Rightarrow> path list" where
  "elementPaths doc =
     filter (\<lambda>p. case nodeAt doc p of Some n \<Rightarrow> isElement n | None \<Rightarrow> False) (descendants doc)"

subsection \<open>labelNavDepth\_: label every A element with its depth\<close>

text \<open>
  The loop over \<^verbatim>\<open>node.firstChild ... nextSibling\<close> is \<open>labelNavDepthLoop\<close>; its
  second argument is the index of the child, from which the paths of the returned A
  elements are built. The result is the subtree after the \<^verbatim>\<open>setAttribute\<close> calls and
  the array \<^verbatim>\<open>navATags\<close>, as paths below \<open>node\<close>. \<^verbatim>\<open>opt_inUl\<close> is always given
  (\<open>False\<close> where the source omits it).
\<close>

function labelNavDepth :: "dom \<Rightarrow> nat \<Rightarrow> bool \<Rightarrow> dom \<times> path list"
  and labelNavDepthLoop :: "dom list \<Rightarrow> nat \<Rightarrow> nat \<Rightarrow> bool \<Rightarrow> dom list \<times> path list" where
  "labelNavDepth node currDepth inUl =
     (let (cs, navATags) = labelNavDepthLoop (childNodes node) 0 currDepth inUl
      in (withChildren node cs, navATags))"
| "labelNavDepthLoop [] i currDepth inUl = ([], [])"
| "labelNavDepthLoop (child # rest) i currDepth inUl =
     (let (child', tags) =
        (if isTag ''UL'' child then
           labelNavDepth child (if inUl then currDepth + 1 else currDepth) True
         else
           (let labelled = (if isTag ''A'' child
                            then setAttribute child ''data-mobilize-nav-level'' (String_nat currDepth)
                            else child);
                (child'', sub) = labelNavDepth labelled currDepth inUl
            in (child'', (if isTag ''A'' child then [[]] else []) @ sub)));
          (rest', more) = labelNavDepthLoop rest (Suc i) currDepth inUl
      in (child' # rest', map ((#) i) tags @ more))"
  by pat_completeness auto
termination
  by (relation "measure (\<lambda>x. case x of
          Inl (node, d, u) \<Rightarrow> 2 * nodes node
        | Inr (cs, i, d, u) \<Rightarrow> 2 * sum_list (map nodes cs) + 1)")
     (auto simp: nodes_childNodes Suc_le_eq)

declare labelNavDepth.simps [simp del]

declare labelNavDepthLoop.simps [simp del]

subsection \<open>constructNavPanel\_: build the menu\<close>

text \<open>
  The level of a link is read back from its attribute: \<^verbatim>\<open>getAttribute\<close> returns a
  string, or \<^verbatim>\<open>null\<close> when the attribute is absent.
\<close>

definition navLevel :: "dom \<Rightarrow> string option" where
  "navLevel a = getAttribute a ''data-mobilize-nav-level''"

text \<open>
  \<^verbatim>\<open>navSubmenus\<close> is a stack of references to UL elements of the menu, here paths
  below \<^verbatim>\<open>navTopUl\<close>, with its top at the end of the list. Items are only ever
  appended to the UL on top of the stack, so a path on the stack stays valid.
  \<open>popSubmenus\<close> is the loop
  \<^verbatim>\<open>while ((popCnt > 0) && (navSubmenus.length > 1)) { navSubmenus.pop(); popCnt--; }\<close>.
\<close>

function popSubmenus :: "int \<Rightarrow> path list \<Rightarrow> path list" where
  "popSubmenus popCnt navSubmenus =
     (if popCnt > 0 \<and> length navSubmenus > 1
      then popSubmenus (popCnt - 1) (butlast navSubmenus)
      else navSubmenus)"
  by pat_completeness auto
termination by (relation "measure (\<lambda>(popCnt, s). nat popCnt)") auto

declare popSubmenus.simps [simp del]

text \<open>
  The list item that opens a submenu: an LI with a DIV holding an A whose text is the
  text of the link and whose href is \<^verbatim>\<open>#\<close>. The text is
  \<^verbatim>\<open>navATags[j].textContent || navATags[j].innerText\<close>; \<^verbatim>\<open>innerText\<close> is taken to
  be empty when \<^verbatim>\<open>textContent\<close> is.
\<close>

definition submenuTitle :: "dom \<Rightarrow> dom" where
  "submenuTitle link =
     appendChild (createElement ''LI'')
       (appendChild (createElement ''DIV'')
          (setAttribute (appendChild (createElement ''A'') (Text (textContent link))) ''href'' ''#''))"

text \<open>
  The body of the loop over \<^verbatim>\<open>navATags\<close>, for the link \<^verbatim>\<open>navATags[j]\<close> and the
  level \<^verbatim>\<open>navLevel2\<close> of the next link (its own level for the last link). The new
  item is the child number \<open>k\<close> of the UL on top of the stack, and the new submenu the
  second child of that item. \<^verbatim>\<open>cloneNode(true)\<close> of a subtree is the subtree.
\<close>

definition constructNavItem :: "dom \<Rightarrow> string option \<Rightarrow> dom \<times> path list \<Rightarrow> dom \<times> path list" where
  "constructNavItem link navLevel2 st =
     (let (navTopUl, navSubmenus) = st;
          navLevel1 = navLevel link;
          cur = last navSubmenus;
          k = childCountAt navTopUl cur
      in if jsLess navLevel1 navLevel2 then
           (let t1 = appendChildAt cur (submenuTitle link) navTopUl;
                t2 = appendChildAt (cur @ [k]) (createElement ''UL'') t1
            in (t2, navSubmenus @ [cur @ [k, 1]]))
         else
           (let t1 = appendChildAt cur (createElement ''LI'') navTopUl;
                t2 = appendChildAt (cur @ [k]) link t1
            in (t2, case jsMinus navLevel1 navLevel2 of
                      Some popCnt \<Rightarrow> popSubmenus popCnt navSubmenus
                    | None \<Rightarrow> navSubmenus)))"

fun constructNavItems :: "dom list \<Rightarrow> dom \<times> path list \<Rightarrow> dom \<times> path list" where
  "constructNavItems [] st = st"
| "constructNavItems [link] st = constructNavItem link (navLevel link) st"
| "constructNavItems (link # next # rest) st =
     constructNavItems (next # rest) (constructNavItem link (navLevel next) st)"

text \<open>
  The body of the loop over \<^verbatim>\<open>navSections_\<close> for a section that has a parent: its
  links are labelled from depth 0 and added to the menu, starting with the stack that
  holds \<^verbatim>\<open>navTopUl\<close> alone. The attribute \<^verbatim>\<open>data-mobilize-nav-section\<close> set on
  the section and the removal of the section from the page in layout mode do not reach
  the menu and are left out.
\<close>

definition constructNavSection :: "dom \<Rightarrow> dom \<Rightarrow> dom" where
  "constructNavSection nav navTopUl =
     (let (nav', paths) = labelNavDepth nav 0 False;
          navATags = List.map_filter (nodeAt nav') paths
      in fst (constructNavItems navATags (navTopUl, [[]])))"

definition navTopUl0 :: dom where
  "navTopUl0 = setAttribute (createElement ''UL'') ''class'' ''open''"

text \<open>
  Modelled from the spec: the constant \<^verbatim>\<open>pagespeed.MobUtil.ElementId.NAV_PANEL\<close> is
  declared outside the sources at hand; it is the fixed identifier of the nav panel.
\<close>

definition NAV_PANEL :: string where
  "NAV_PANEL = ''psmob-nav-panel''"

text \<open>
  The panel before the duplicates are removed: a NAV element with that id, which holds the
  top UL after every section has been added.
\<close>

definition constructNavDom :: "dom list \<Rightarrow> dom" where
  "constructNavDom navSections =
     appendChild (setAttribute (createElement ''NAV'') ''id'' NAV_PANEL)
       (foldl (\<lambda>ul nav. constructNavSection nav ul) navTopUl0 navSections)"

subsection \<open>dedupNavMenuItems\_: remove duplicate entries\<close>

text \<open>
  \<^verbatim>\<open>innerHTML\<close> is the serialisation of the children of a node: tag names in lower
  case, attributes in order, text with \<^verbatim>\<open>&\<close>, \<^verbatim>\<open><\<close> and \<^verbatim>\<open>>\<close> escaped, no end
  tag for the void elements.
\<close>

definition voidElements :: "string list" where
  "voidElements = [''area'', ''base'', ''br'', ''col'', ''embed'', ''hr'', ''img'', ''input'',
     ''link'', ''meta'', ''param'', ''source'', ''track'', ''wbr'']"

fun escapeText :: "string \<Rightarrow> string" where
  "escapeText [] = []"
| "escapeText (c # cs) =
     (if c = CHR ''&'' then ''&amp;'' else if c = CHR ''<'' then ''&lt;''
      else if c = CHR ''>'' then ''&gt;'' else [c]) @ escapeText cs"

fun escapeAttr :: "string \<Rightarrow> string" where
  "escapeAttr [] = []"
| "escapeAttr (c # cs) =
     (if c = CHR ''&'' then ''&amp;'' else if c = CHR 0x22 then ''&quot;'' else [c]) @ escapeAttr cs"

definition serializeAttrs :: "(string \<times> string) list \<Rightarrow> string" where
  "serializeAttrs as = concat (map (\<lambda>(k, v). '' '' @ k @ ''='' @ [CHR 0x22] @ escapeAttr v @ [CHR 0x22]) as)"

fun outerHTML :: "dom \<Rightarrow> string" where
  "outerHTML (Element n as l cs) =
     (let tag = toLowerCase n
      in ''<'' @ tag @ serializeAttrs as @ ''>'' @
         (if tag \<in> set voidElements then [] else concat (map outerHTML cs) @ ''</'' @ tag @ ''>''))"
| "outerHTML (Text t) = escapeText t"
| "outerHTML (Comment t) = ''<!--'' @ t @ ''-->''"

definition innerHTML :: "dom \<Rightarrow> string" where
  "innerHTML node = concat (map outerHTML (childNodes node))"

text \<open>
  The property \<^verbatim>\<open>href\<close> of an anchor is its href attribute resolved to an absolute
  URL, and the empty string without the attribute. The resolution is the browser's and is
  the parameter \<open>url\<close> of the functions below. (An absolute URL is never the name of a
  member of \<^verbatim>\<open>Object.prototype\<close>, so \<^verbatim>\<open>aTag.href in menuItems\<close> is a lookup among
  the keys that the scan has stored.)
\<close>

definition href :: "(string \<Rightarrow> string) \<Rightarrow> dom \<Rightarrow> string" where
  "href url a = (case getAttribute a ''href'' of Some h \<Rightarrow> url h | None \<Rightarrow> [])"

type_synonym menuItems = "string \<Rightarrow> string list option"

text \<open>
  One step of the scan over the anchors of the panel, on \<^verbatim>\<open>menuItems\<close> and
  \<^verbatim>\<open>nodesToDelete\<close>. \<open>p\<close> is the path of the anchor and \<open>butlast p\<close> that of its
  parent.
\<close>

definition dedupStep ::
  "(string \<Rightarrow> string) \<Rightarrow> dom \<Rightarrow> menuItems \<times> path list \<Rightarrow> path \<Rightarrow> menuItems \<times> path list" where
  "dedupStep url navPanel st p =
     (let (menuItems, nodesToDelete) = st
      in case nodeAt navPanel p of
           None \<Rightarrow> st
         | Some aTag \<Rightarrow>
             (case menuItems (href url aTag) of
                None \<Rightarrow> (menuItems(href url aTag \<mapsto> [toLowerCase (innerHTML aTag)]), nodesToDelete)
              | Some labels \<Rightarrow>
                  (let label = toLowerCase (innerHTML aTag)
                   in if label \<notin> set labels
                      then (menuItems(href url aTag \<mapsto> labels @ [label]), nodesToDelete)
                      else (case nodeAt navPanel (butlast p) of
                              Some parentNode \<Rightarrow>
                                if isTag ''LI'' parentNode
                                then (menuItems, nodesToDelete @ [butlast p])
                                else (menuItems, nodesToDelete)
                            | None \<Rightarrow> (menuItems, nodesToDelete)))))"

definition dedupScan :: "(string \<Rightarrow> string) \<Rightarrow> dom \<Rightarrow> path list" where
  "dedupScan url navPanel =
     snd (foldl (dedupStep url navPanel) (Map.empty, []) (getElementsByTagName navPanel ''a''))"

text \<open>
  The second loop removes every queued node from its parent. The queue holds references,
  so the removals do not disturb each other, and the panel is left without the subtrees
  at the queued paths: \<open>removeNodes\<close>. A node queued twice has no parent any more at its
  second turn, and \<^verbatim>\<open>node.parentNode.removeChild\<close> throws a TypeError.
\<close>

fun removeNodes :: "path list \<Rightarrow> dom \<Rightarrow> dom"
  and removeNodesFrom :: "path list \<Rightarrow> nat \<Rightarrow> dom list \<Rightarrow> dom list" where
  "removeNodes ps (Element n as l cs) = Element n as l (removeNodesFrom ps 0 cs)"
| "removeNodes ps (Text t) = Text t"
| "removeNodes ps (Comment t) = Comment t"
| "removeNodesFrom ps i [] = []"
| "removeNodesFrom ps i (c # cs) =
     (if [i] \<in> set ps then []
      else [removeNodes (List.map_filter (\<lambda>q. case q of j # r \<Rightarrow> if j = i then Some r else None | [] \<Rightarrow> None) ps) c])
     @ removeNodesFrom ps (Suc i) cs"

definition dedupNavMenuItems :: "(string \<Rightarrow> string) \<Rightarrow> dom \<Rightarrow> error + dom" where
  "dedupNavMenuItems url navPanel =
     (let nodesToDelete = dedupScan url navPanel
      in if distinct nodesToDelete then Inr (removeNodes nodesToDelete navPanel) else Inl TypeError)"

text \<open>
  \<^verbatim>\<open>constructNavPanel_\<close> up to the call of \<^verbatim>\<open>dedupNavMenuItems_\<close>. The call of
  \<^verbatim>\<open>cleanupNavPanel_\<close> that follows is not modelled.
\<close>

definition constructNavPanel :: "(string \<Rightarrow> string) \<Rightarrow> dom list \<Rightarrow> error + dom" where
  "constructNavPanel url navSections = dedupNavMenuItems url (constructNavDom navSections)"

subsection \<open>hasImages\_ and canEnlargeNav\_: the enlarge heuristic\<close>

definition hasImages :: "bool \<Rightarrow> dom \<Rightarrow> bool" where
  "hasImages visibilityMatters node =
     (if \<not> isElement node then False
      else if isTag ''IMG'' node then (\<not> visibilityMatters \<or> \<not> offsetParentIsNull node)
      else (let images = List.map_filter (nodeAt node) (getElementsByTagName node ''IMG'')
            in if visibilityMatters then list_ex (\<lambda>img. \<not> offsetParentIsNull img) images
               else length images > 0))"

text \<open>
  The loop over the children of the parent. \<open>element\<close> is the index of the candidate
  among them (\<^verbatim>\<open>child == element\<close> is \<open>k = element\<close>).
\<close>

fun canEnlargeLoop :: "bool \<Rightarrow> nat \<Rightarrow> nat \<Rightarrow> bool \<Rightarrow> nat \<Rightarrow> dom list \<Rightarrow> bool" where
  "canEnlargeLoop elementIsVisible element k sawElement preElementTextSize [] = True"
| "canEnlargeLoop elementIsVisible element k sawElement preElementTextSize (child # rest) =
     (if k = element then
        canEnlargeLoop elementIsVisible element (Suc k) True preElementTextSize rest
      else if offsetParentIsNull child \<and> elementIsVisible then
        canEnlargeLoop elementIsVisible element (Suc k) sawElement preElementTextSize rest
      else if nodeType child \<noteq> 3 \<and> nodeType child \<noteq> 1 then
        canEnlargeLoop elementIsVisible element (Suc k) sawElement preElementTextSize rest
      else if hasImages elementIsVisible child then False
      else (let textSize = length (trim (textContent child))
            in if textSize > 0 then
                 (if sawElement then False
                  else if preElementTextSize + textSize > 60 then False
                  else canEnlargeLoop elementIsVisible element (Suc k) sawElement
                         (preElementTextSize + textSize) rest)
               else canEnlargeLoop elementIsVisible element (Suc k) sawElement preElementTextSize rest))"

text \<open>The candidate is given by its path in the document; the root has no parent.\<close>

definition canEnlargeNav :: "dom \<Rightarrow> path \<Rightarrow> bool" where
  "canEnlargeNav doc element =
     (if element = [] then False
      else case (nodeAt doc (butlast element), nodeAt doc element) of
             (Some parent, Some el) \<Rightarrow>
               if length (getElementsByTagName parent ''SCRIPT'') > 0 then False
               else canEnlargeLoop (\<not> offsetParentIsNull el) (last element) 0 False 0 (childNodes parent)
           | _ \<Rightarrow> False)"

subsection \<open>findNavSections\_: discovery\<close>

text \<open>
  \<^verbatim>\<open>document.getElementById(id) || document.querySelector('[id=' + ... + ']')\<close>: the
  first element in document order whose id attribute is the given string.
  \<^verbatim>\<open>getElementById\<close> finds nothing for the empty string; the attribute selector does.
\<close>

definition hasIdAttribute :: "dom \<Rightarrow> string \<Rightarrow> path \<Rightarrow> bool" where
  "hasIdAttribute doc v p = (case nodeAt doc p of Some n \<Rightarrow> getAttribute n ''id'' = Some v | None \<Rightarrow> False)"

definition getElementById :: "dom \<Rightarrow> string \<Rightarrow> path option" where
  "getElementById doc v = (if v = [] then None else find (hasIdAttribute doc v) (elementPaths doc))"

definition querySelectorId :: "dom \<Rightarrow> string \<Rightarrow> path option" where
  "querySelectorId doc v = find (hasIdAttribute doc v) (elementPaths doc)"

definition resolveId :: "dom \<Rightarrow> string \<Rightarrow> path option" where
  "resolveId doc v = (case getElementById doc v of Some p \<Rightarrow> Some p | None \<Rightarrow> querySelectorId doc v)"

text \<open>
  The id given to a parent without one. \<open>pageSpeedStem s\<close> is \<open>s\<close> without its final
  \<^verbatim>\<open>-[0-9]+\<close> when \<open>s\<close> matches \<^verbatim>\<open>/^PageSpeed-.*-[0-9]+$/\<close>: the string ends with a
  hyphen and at least one digit, what is before them starts with \<^verbatim>\<open>PageSpeed-\<close>, and
  the rest of it has no line break (which \<^verbatim>\<open>.\<close> does not match).
\<close>

definition pageSpeedStem :: "string \<Rightarrow> string option" where
  "pageSpeedStem s =
     (let digits = takeWhile isDigit (rev s);
          before = dropWhile isDigit (rev s)
      in case before of
           [] \<Rightarrow> None
         | c # stemRev \<Rightarrow>
             if digits \<noteq> [] \<and> c = CHR ''-'' \<and> take 10 (rev stemRev) = ''PageSpeed-'' \<and>
                (\<forall>x \<in> set (drop 10 (rev stemRev)). x \<noteq> CHR 0x0A \<and> x \<noteq> CHR 0x0D)
             then Some (rev stemRev) else None)"

definition synthesizedParentId :: "string \<Rightarrow> string" where
  "synthesizedParentId elementId =
     (case pageSpeedStem elementId of
        Some stem \<Rightarrow> stem
      | None \<Rightarrow> ''PageSpeed-'' @ elementId @ ''-P'')"

text \<open>
  \<^verbatim>\<open>parents\<close> is a plain object used as a map from parent ids to booleans. The
  operator \<^verbatim>\<open>in\<close> also finds the properties an object inherits from
  \<^verbatim>\<open>Object.prototype\<close>, and reading one of them gives a function, which is truthy.
\<close>

definition objectPrototypeKeys :: "string list" where
  "objectPrototypeKeys =
     [''constructor'', ''toString'', ''toLocaleString'', ''valueOf'', ''hasOwnProperty'',
      ''isPrototypeOf'', ''propertyIsEnumerable'', ''__proto__'', ''__defineGetter__'',
      ''__defineSetter__'', ''__lookupGetter__'', ''__lookupSetter__'']"

text \<open>
  The state of the loop: the document, in which parents are given ids, the object
  \<^verbatim>\<open>parents\<close> and the array \<^verbatim>\<open>elements\<close>.
\<close>

record discovery =
  document :: dom
  parents :: "string \<Rightarrow> bool option"
  elements :: "path list"

text \<open>\<^verbatim>\<open>k in parents\<close> and the truth value of \<^verbatim>\<open>parents[k]\<close>.\<close>

definition inParents :: "string \<Rightarrow> (string \<Rightarrow> bool option) \<Rightarrow> bool" where
  "inParents k ps = (ps k \<noteq> None \<or> k \<in> set objectPrototypeKeys)"

definition truthyParent :: "string \<Rightarrow> (string \<Rightarrow> bool option) \<Rightarrow> bool" where
  "truthyParent k ps = (case ps k of Some b \<Rightarrow> b | None \<Rightarrow> True)"

text \<open>
  The document after the parent of \<open>element\<close> has been given an id, if it had none, and
  the id of the parent then: the key under which the parent is remembered.
\<close>

definition withParentId :: "dom \<Rightarrow> path \<Rightarrow> dom" where
  "withParentId doc element =
     (let parent = butlast element;
          parentId = (case nodeAt doc parent of Some n \<Rightarrow> idOf n | None \<Rightarrow> []);
          elementId = (case nodeAt doc element of Some n \<Rightarrow> idOf n | None \<Rightarrow> [])
      in if parentId = []
         then updateAt parent (\<lambda>n. setAttribute n ''id'' (synthesizedParentId elementId)) doc
         else doc)"

definition parentKey :: "dom \<Rightarrow> path \<Rightarrow> string" where
  "parentKey doc element =
     (case nodeAt (withParentId doc element) (butlast element) of Some n \<Rightarrow> idOf n | None \<Rightarrow> [])"

text \<open>
  The body of the loop over \<^verbatim>\<open>window.pagespeedNavigationalIds\<close>. When the id
  resolves to no element, \<^verbatim>\<open>element.parentNode\<close> throws a TypeError.
\<close>

definition findNavStep :: "discovery \<Rightarrow> string \<Rightarrow> error + discovery" where
  "findNavStep st v =
     (case resolveId (document st) v of
        None \<Rightarrow> Inl TypeError
      | Some element \<Rightarrow>
          if element = [] then Inr (st\<lparr>elements := elements st @ [element]\<rparr>)
          else
            (let parent = butlast element;
                 doc = withParentId (document st) element;
                 key = parentKey (document st) element
             in if \<not> inParents key (parents st) then
                  (let enlarge = canEnlargeNav doc element
                   in Inr \<lparr>document = doc, parents = (parents st)(key \<mapsto> enlarge),
                           elements = elements st @ [if enlarge then parent else element]\<rparr>)
                else if \<not> truthyParent key (parents st) then
                  Inr \<lparr>document = doc, parents = parents st, elements = elements st @ [element]\<rparr>
                else
                  Inr \<lparr>document = doc, parents = parents st, elements = elements st\<rparr>))"

fun findNavLoop :: "discovery \<Rightarrow> string list \<Rightarrow> error + discovery" where
  "findNavLoop st [] = Inr st"
| "findNavLoop st (v # ids) =
     (case findNavStep st v of Inl e \<Rightarrow> Inl e | Inr st' \<Rightarrow> findNavLoop st' ids)"

text \<open>
  \<^verbatim>\<open>document.body\<close>: the first BODY or FRAMESET child of the document element, when
  that is an HTML element. The root of the tree is the document itself.
\<close>

definition documentElement :: "dom \<Rightarrow> path option" where
  "documentElement doc =
     map_option (\<lambda>i. [i]) (find (\<lambda>i. isElement (childNodes doc ! i)) [0..<length (childNodes doc)])"

definition body :: "dom \<Rightarrow> path option" where
  "body doc =
     (case documentElement doc of
        None \<Rightarrow> None
      | Some html \<Rightarrow>
          (case nodeAt doc html of
             None \<Rightarrow> None
           | Some h \<Rightarrow>
               if isTag ''HTML'' h then
                 map_option (\<lambda>j. html @ [j])
                   (find (\<lambda>j. isTag ''BODY'' (childNodes h ! j) \<or> isTag ''FRAMESET'' (childNodes h ! j))
                      [0..<length (childNodes h)])
               else None))"

text \<open>
  The result of discovery: the page, \<^verbatim>\<open>this.navPanel_\<close> and
  \<^verbatim>\<open>this.navSections_\<close>. \<^verbatim>\<open>document.body.appendChild(navPanel)\<close> moves the panel:
  it is removed from its parent and appended to the body, and it throws a
  HierarchyRequestError when the panel contains the body. The second argument is
  \<^verbatim>\<open>window.pagespeedNavigationalIds\<close>, which may be undefined.
\<close>

record sections =
  page :: dom
  navPanelPath :: "path option"
  navSectionPaths :: "path list"

definition findNavSections :: "dom \<Rightarrow> string list option \<Rightarrow> error + sections" where
  "findNavSections doc pagespeedNavigationalIds =
     (case getElementById doc NAV_PANEL of
        Some panel \<Rightarrow>
          (case (body doc, nodeAt doc panel) of
             (Some b, Some node) \<Rightarrow>
               if take (length panel) b = panel then Inl HierarchyRequestError
               else
                 (let doc1 = removeChild panel doc
                  in case body doc1 of
                       None \<Rightarrow> Inl TypeError
                     | Some b1 \<Rightarrow>
                         Inr \<lparr>page = appendChildAt b1 node doc1,
                              navPanelPath = Some (b1 @ [childCountAt doc1 b1]),
                              navSectionPaths = []\<rparr>)
           | _ \<Rightarrow> Inl TypeError)
      | None \<Rightarrow>
          (case pagespeedNavigationalIds of
             None \<Rightarrow> Inr \<lparr>page = doc, navPanelPath = None, navSectionPaths = []\<rparr>
           | Some ids \<Rightarrow>
               (case findNavLoop \<lparr>document = doc, parents = Map.empty, elements = []\<rparr> ids of
                  Inl e \<Rightarrow> Inl e
                | Inr st \<Rightarrow> Inr \<lparr>page = document st, navPanelPath = None, navSectionPaths = elements st\<rparr>)))"

subsection \<open>findElementsToOffset\_: the elements to offset\<close>

text \<open>
  Modelled from the spec: the constant \<^verbatim>\<open>pagespeed.MobUtil.ElementId.PROGRESS_SCRIM\<close>
  is declared outside the sources at hand; it is one of the fixed identifiers of the
  overlay.
\<close>

definition PROGRESS_SCRIM :: string where
  "PROGRESS_SCRIM = ''psmob-progress-scrim''"

definition overlayElement :: "dom \<Rightarrow> bool" where
  "overlayElement element =
     (\<not> (className element \<noteq> PROGRESS_SCRIM \<and> \<not> startsWith (className element) ''psmob-'' \<and>
         \<not> startsWith (idOf element) ''psmob-''))"

text \<open>
  \<^verbatim>\<open>pagespeed.MobUtil.pixelValue\<close> is the parameter \<open>pixelValue\<close>: it reads a pixel
  value from a CSS length, or returns null. The loop is over the element children; the
  result lists the elements added to \<^verbatim>\<open>elementsToOffset_\<close>, as paths below
  \<open>element\<close>.
\<close>

fun findElementsToOffsetHelper :: "(string \<Rightarrow> int option) \<Rightarrow> dom \<Rightarrow> bool \<Rightarrow> path list"
  and findElementsToOffsetLoop :: "(string \<Rightarrow> int option) \<Rightarrow> dom list \<Rightarrow> nat \<Rightarrow> bool \<Rightarrow> path list" where
  "findElementsToOffsetHelper pixelValue (Element n as l cs) fixedPositionOnly =
     (if \<not> overlayElement (Element n as l cs) then
        (let position = cssPosition l;
             top = pixelValue (cssTop l);
             added = (if position \<noteq> ''static'' \<and> top \<noteq> None \<and>
                         (position = ''fixed'' \<or> (\<not> fixedPositionOnly \<and> position = ''absolute''))
                      then [[]] else [])
         in added @ findElementsToOffsetLoop pixelValue cs 0
                      (if position \<noteq> ''static'' then True else fixedPositionOnly))
      else [])"
| "findElementsToOffsetHelper pixelValue (Text t) fixedPositionOnly = []"
| "findElementsToOffsetHelper pixelValue (Comment t) fixedPositionOnly = []"
| "findElementsToOffsetLoop pixelValue [] i fixedPositionOnly = []"
| "findElementsToOffsetLoop pixelValue (child # rest) i fixedPositionOnly =
     (if isElement child
      then map ((#) i) (findElementsToOffsetHelper pixelValue child fixedPositionOnly) else [])
     @ findElementsToOffsetLoop pixelValue rest (Suc i) fixedPositionOnly"

definition findElementsToOffset :: "(string \<Rightarrow> int option) \<Rightarrow> dom \<Rightarrow> path list" where
  "findElementsToOffset pixelValue doc =
     (case body doc of
        None \<Rightarrow> []
      | Some b \<Rightarrow> (case nodeAt doc b of
                     None \<Rightarrow> []
                   | Some bodyNode \<Rightarrow> map ((@) b) (findElementsToOffsetHelper pixelValue bodyNode False)))"

subsection \<open>redrawHeader\_: offsets and scroll compensation\<close>

text \<open>
  Modelled from the spec: \<^verbatim>\<open>pagespeed.MobUtil.pixelValue\<close> and
  \<^verbatim>\<open>pagespeed.MobUtil.boundingRect\<close> are declared outside the sources at hand. A
  tracked element is kept with what they return for it: the pixel value of its computed
  top, the pixel value of \<^verbatim>\<open>el.style.top\<close> (the one written there by
  \<^verbatim>\<open>String(v) + 'px'\<close>), and the top of its bounding rectangle in the page. Pixel
  values are integers, as the header heights are after \<^verbatim>\<open>Math.round\<close>.
\<close>

record offsetElement =
  computedPosition :: string
  computedTop :: "int option"
  styleTop :: "int option"
  boundingTop :: int



definition offsetTop :: "bool \<Rightarrow> int \<Rightarrow> int \<Rightarrow> offsetElement \<Rightarrow> offsetElement" where
  "offsetTop called oldHeight newHeight el =
     (if computedPosition el \<noteq> ''static'' \<and> computedTop el \<noteq> None then
        (if called then
           (case styleTop el of
              Some oldTop \<Rightarrow> el\<lparr>styleTop := Some (oldTop + (newHeight - oldHeight))\<rparr>
            | None \<Rightarrow> el)
         else el\<lparr>styleTop := Some (boundingTop el + newHeight)\<rparr>)
      else el)"


section \<open>What the properties speak of\<close>

subsection \<open>Document order and list nesting\<close>

text \<open>
  The links below a root, the level written on a node, and the number of UL elements
  strictly between the root and a node. A link inside \<open>k\<close> lists has list depth \<open>k\<close>
  when the traversal starts inside a list, and \<open>k - 1\<close> otherwise (0 outside every
  list).
\<close>

definition isLink :: "dom \<Rightarrow> path \<Rightarrow> bool" where
  "isLink node p = (case nodeAt node p of Some n \<Rightarrow> isTag ''A'' n | None \<Rightarrow> False)"

definition levelAt :: "dom \<Rightarrow> path \<Rightarrow> string option" where
  "levelAt node p =
     (case nodeAt node p of Some n \<Rightarrow> getAttribute n ''data-mobilize-nav-level'' | None \<Rightarrow> None)"

fun ulCount :: "dom \<Rightarrow> path \<Rightarrow> nat" where
  "ulCount node [] = 0"
| "ulCount node [i] = 0"
| "ulCount node (i # j # p) =
     (if i < length (childNodes node)
      then (if isTag ''UL'' (childNodes node ! i) then 1 else 0) + ulCount (childNodes node ! i) (j # p)
      else 0)"

definition listDepth :: "bool \<Rightarrow> nat \<Rightarrow> nat" where
  "listDepth inUl k = (if inUl then k else k - 1)"

subsection \<open>Menu items\<close>

definition leafItem :: "dom \<Rightarrow> dom" where
  "leafItem a = appendChild (createElement ''LI'') a"

definition groupItem :: "string \<Rightarrow> dom list \<Rightarrow> dom" where
  "groupItem label items =
     appendChild
       (appendChild (createElement ''LI'')
          (appendChild (createElement ''DIV'')
             (setAttribute (appendChild (createElement ''A'') (Text label)) ''href'' ''#'')))
       (foldl appendChild (createElement ''UL'') items)"

definition levelled :: "dom \<Rightarrow> nat \<Rightarrow> dom" where
  "levelled a d = setAttribute a ''data-mobilize-nav-level'' (String_nat d)"

text \<open>
  The key of an anchor of the panel, whether its parent is a list item, and whether the
  key of the anchor number \<open>i\<close> occurs at an earlier anchor.
\<close>

definition dedupKey :: "(string \<Rightarrow> string) \<Rightarrow> dom \<Rightarrow> path \<Rightarrow> string \<times> string" where
  "dedupKey url navPanel p =
     (case nodeAt navPanel p of
        Some a \<Rightarrow> (href url a, toLowerCase (innerHTML a))
      | None \<Rightarrow> ([], []))"

definition parentIsLI :: "dom \<Rightarrow> path \<Rightarrow> bool" where
  "parentIsLI navPanel p =
     (case nodeAt navPanel (butlast p) of Some parentNode \<Rightarrow> isTag ''LI'' parentNode | None \<Rightarrow> False)"

definition repeatedAt :: "(string \<Rightarrow> string) \<Rightarrow> dom \<Rightarrow> path list \<Rightarrow> nat \<Rightarrow> bool" where
  "repeatedAt url navPanel as i =
     (dedupKey url navPanel (as ! i) \<in> set (map (dedupKey url navPanel) (take i as)))"

definition repeatedAnchors :: "(string \<Rightarrow> string) \<Rightarrow> dom \<Rightarrow> path list" where
  "repeatedAnchors url navPanel =
     (let as = getElementsByTagName navPanel ''a''
      in map ((!) as) (filter (repeatedAt url navPanel as) [0..<length as]))"


text \<open>What \<^verbatim>\<open>menuItems\<close> holds after the anchors \<open>xs\<close>.\<close>

definition menuInv :: "(string \<Rightarrow> string) \<Rightarrow> dom \<Rightarrow> menuItems \<Rightarrow> path list \<Rightarrow> bool" where
  "menuInv url navPanel m xs =
     (\<forall>h. (m h = None \<longrightarrow> h \<notin> fst ` dedupKey url navPanel ` set xs) \<and>
          (\<forall>ls. m h = Some ls \<longrightarrow>
                set ls = {l. (h, l) \<in> dedupKey url navPanel ` set xs} \<and> ls \<noteq> []))"

subsection \<open>Considered siblings\<close>

text \<open>
  The siblings that the enlarge heuristic looks at, and what it requires of them, from
  the child number \<open>k\<close> on and with \<open>pre\<close> characters of text seen so far.
\<close>

definition considered :: "bool \<Rightarrow> dom \<Rightarrow> bool" where
  "considered elementIsVisible child =
     (\<not> (offsetParentIsNull child \<and> elementIsVisible) \<and> (nodeType child = 3 \<or> nodeType child = 1))"

definition trimmedSize :: "dom \<Rightarrow> nat" where
  "trimmedSize child = length (trim (textContent child))"

definition siblingsFrom :: "bool \<Rightarrow> nat \<Rightarrow> nat \<Rightarrow> dom list \<Rightarrow> (nat \<times> dom) list" where
  "siblingsFrom elementIsVisible element k cs =
     filter (\<lambda>(j, c). j \<noteq> element \<and> considered elementIsVisible c) (enumerate k cs)"

definition enlargeableFrom :: "bool \<Rightarrow> nat \<Rightarrow> nat \<Rightarrow> nat \<Rightarrow> dom list \<Rightarrow> bool" where
  "enlargeableFrom elementIsVisible element k pre cs =
     (let sibs = siblingsFrom elementIsVisible element k cs
      in list_all (\<lambda>(j, c). \<not> hasImages elementIsVisible c) sibs \<and>
         list_all (\<lambda>(j, c). element < j \<longrightarrow> trimmedSize c = 0) sibs \<and>
         pre + sum_list (map (\<lambda>(j, c). trimmedSize c) (filter (\<lambda>(j, c). j < element) sibs)) \<le> 60)"


subsection \<open>Candidates for an offset\<close>

text \<open>
  The nodes on the way from a root to a path, the root first and without the node at the
  path itself, and the condition under which the node at a path is tracked.
\<close>

definition ancestorsAt :: "dom \<Rightarrow> path \<Rightarrow> dom list" where
  "ancestorsAt root q = List.map_filter (\<lambda>k. nodeAt root (take k q)) [0..<length q]"

definition offsetCandidateFrom :: "(string \<Rightarrow> int option) \<Rightarrow> bool \<Rightarrow> dom \<Rightarrow> path \<Rightarrow> bool" where
  "offsetCandidateFrom pixelValue fixedPositionOnly root q =
     (case nodeAt root q of
        None \<Rightarrow> False
      | Some e \<Rightarrow>
          isElement e \<and>
          list_all (\<lambda>a. \<not> overlayElement a) (ancestorsAt root q @ [e]) \<and>
          pixelValue (cssTop (computedStyle e)) \<noteq> None \<and>
          (cssPosition (computedStyle e) = ''fixed'' \<or>
           cssPosition (computedStyle e) = ''absolute'' \<and> \<not> fixedPositionOnly \<and>
           list_all (\<lambda>a. cssPosition (computedStyle a) = ''static'') (ancestorsAt root q)))"

definition offsetCandidate :: "(string \<Rightarrow> int option) \<Rightarrow> dom \<Rightarrow> path \<Rightarrow> bool" where
  "offsetCandidate pixelValue root q =
     (case nodeAt root q of
        None \<Rightarrow> False
      | Some e \<Rightarrow>
          isElement e \<and>
          list_all (\<lambda>a. \<not> overlayElement a) (ancestorsAt root q @ [e]) \<and>
          pixelValue (cssTop (computedStyle e)) \<noteq> None \<and>
          (cssPosition (computedStyle e) = ''fixed'' \<or>
           cssPosition (computedStyle e) = ''absolute'' \<and>
           list_all (\<lambda>a. cssPosition (computedStyle a) = ''static'') (ancestorsAt root q)))"

subsection \<open>Tracked elements and redrawn states\<close>

definition tracked :: "offsetElement \<Rightarrow> bool" where
  "tracked el = (computedPosition el \<noteq> ''static'' \<and> computedTop el \<noteq> None)"


section \<open>Example pages\<close>

definition visible :: layout where
  "visible = \<lparr>offsetParent = True, cssPosition = ''static'', cssTop = ''auto''\<rparr>"



definition link :: "string \<Rightarrow> string \<Rightarrow> dom" where
  "link h t = Element ''A'' [(''href'', h)] visible [Text t]"

definition block :: "string \<Rightarrow> dom list \<Rightarrow> dom" where
  "block n cs = Element n [] visible cs"

fun nestedLists :: "nat \<Rightarrow> dom list \<Rightarrow> dom" where
  "nestedLists 0 cs = block ''DIV'' cs"
| "nestedLists (Suc n) cs = nestedLists n [block ''UL'' cs]"


definition twinGroupsNav :: dom where
  "twinGroupsNav = block ''NAV'' [block ''UL''
     [block ''LI'' [link ''#'' ''More'', block ''UL'' [block ''LI'' [link ''/a'' ''A'']]],
      block ''LI'' [link ''#'' ''More'', block ''UL'' [block ''LI'' [link ''/b'' ''B'']]]]]"


definition panelPage :: dom where
  "panelPage = block ''#document'' [block ''HTML'' [block ''HEAD'' [],
     block ''BODY''
       [Element ''NAV'' [(''id'', ''psmob-nav-panel'')] visible
          [block ''UL'' [block ''LI'' [link ''/'' ''Home'']]],
        block ''DIV'' [Text ''content'']]]]"

definition relocated :: sections where
  "relocated = \<lparr>page = block ''#document'' [block ''HTML'' [block ''HEAD'' [],
     block ''BODY''
       [block ''DIV'' [Text ''content''],
        Element ''NAV'' [(''id'', ''psmob-nav-panel'')] visible
          [block ''UL'' [block ''LI'' [link ''/'' ''Home'']]]]]],
      navPanelPath = Some [0, 1, 1], navSectionPaths = []\<rparr>"

definition wrapperPage :: "string \<Rightarrow> dom" where
  "wrapperPage parentId = block ''#document'' [block ''HTML'' [block ''HEAD'' [],
     block ''BODY''
       [Element ''DIV'' [(''id'', parentId)] visible
          [Element ''UL'' [(''id'', ''nav1'')] visible [block ''LI'' [link ''/'' ''Home'']],
           Element ''UL'' [(''id'', ''nav2'')] visible [block ''LI'' [link ''/b'' ''More'']]]]]]"

text \<open>
  Modelled from the spec: \<^verbatim>\<open>pagespeed.MobUtil.pixelValue\<close> is declared outside the
  sources at hand. For the examples, a pixel value is a string of decimal digits followed
  by \<^verbatim>\<open>px\<close>.
\<close>

definition pixelValue :: "string \<Rightarrow> int option" where
  "pixelValue s =
     (let digits = takeWhile isDigit s
      in if digits \<noteq> [] \<and> dropWhile isDigit s = ''px''
         then map_option int (decimalValue 0 digits) else None)"



section \<open>Properties\<close>

subsection \<open>Depth labelling\<close>

lemma childNodes_setAttribute [simp]: "childNodes (setAttribute c k v) = childNodes c"
  by (cases c) simp_all

lemma nodeName_setAttribute [simp]: "nodeName (setAttribute c k v) = nodeName c"
  by (cases c) simp_all

lemma isTag_setAttribute [simp]: "isTag t (setAttribute c k v) = isTag t c"
  by (simp add: isTag_def)

lemma descendants_childNodes: "descendants c = descendantsFrom 0 (childNodes c)"
  by (cases c) simp_all

lemma descendants_setAttribute [simp]: "descendants (setAttribute c k v) = descendants c"
  by (simp add: descendants_childNodes)

lemma isLink_Nil [simp]: "isLink c [] = isTag ''A'' c"
  by (simp add: isLink_def)

lemma isLink_Cons: "isLink c (i # q) = (i < length (childNodes c) \<and> isLink (childNodes c ! i) q)"
  by (simp add: isLink_def)

lemma isLink_setAttribute [simp]: "isLink (setAttribute c k v) p = isLink c p"
  by (cases p) (simp_all add: isLink_Cons)

lemma filter_isLink_map:
  "i < length (childNodes node) \<Longrightarrow>
   filter (isLink node) (map ((#) i) qs) = map ((#) i) (filter (isLink (childNodes node ! i)) qs)"
  by (induction qs) (simp_all add: isLink_Cons)

lemma snd_labelNavDepth:
  "snd (labelNavDepth node d u) = snd (labelNavDepthLoop (childNodes node) 0 d u)"
  by (simp add: labelNavDepth.simps split_beta)

lemma fst_labelNavDepth:
  "fst (labelNavDepth node d u) = withChildren node (fst (labelNavDepthLoop (childNodes node) 0 d u))"
  by (simp add: labelNavDepth.simps split_beta)

lemma fst_labelNavDepthLoop_Cons:
  "fst (labelNavDepthLoop (child # rest) i d u) =
     (if isTag ''UL'' child then fst (labelNavDepth child (if u then d + 1 else d) True)
      else fst (labelNavDepth
                 (if isTag ''A'' child
                  then setAttribute child ''data-mobilize-nav-level'' (String_nat d) else child) d u))
     # fst (labelNavDepthLoop rest (Suc i) d u)"
  apply (subst labelNavDepthLoop.simps)
  apply (cases "isTag ''UL'' child"; cases "isTag ''A'' child")
  apply (simp_all add: Let_def split_beta)
  done

lemma snd_labelNavDepthLoop_Cons:
  "snd (labelNavDepthLoop (child # rest) i d u) =
     map ((#) i)
       (if isTag ''UL'' child then snd (labelNavDepth child (if u then d + 1 else d) True)
        else (if isTag ''A'' child then [[]] else []) @ snd (labelNavDepth child d u))
     @ snd (labelNavDepthLoop rest (Suc i) d u)"
  apply (subst labelNavDepthLoop.simps)
  apply (cases "isTag ''UL'' child"; cases "isTag ''A'' child")
  apply (simp_all add: Let_def split_beta snd_labelNavDepth)
  done

lemma labelNavDepthLoop_Nil [simp]: "labelNavDepthLoop [] i d u = ([], [])"
  by (simp add: labelNavDepthLoop.simps)

lemma labelNavDepthLoop_paths:
  assumes "\<And>c d u. c \<in> set cs \<Longrightarrow> snd (labelNavDepth c d u) = filter (isLink c) (descendants c)"
    and "length pre = i"
  shows "snd (labelNavDepthLoop cs i d u) =
     filter (isLink (Element n as l (pre @ cs))) (descendantsFrom i cs)"
  using assms
proof (induction cs arbitrary: i pre)
  case Nil
  show ?case by simp
next
  case (Cons child rest)
  let ?parent = "Element n as l (pre @ child # rest)"
  have len: "i < length (childNodes ?parent)" and nth: "childNodes ?parent ! i = child"
    using Cons.prems(2) by (simp_all add: nth_append)
  have rest: "snd (labelNavDepthLoop rest (Suc i) d u) =
      filter (isLink ?parent) (descendantsFrom (Suc i) rest)"
    using Cons.IH[of "pre @ [child]" "Suc i"] Cons.prems by simp
  have here: "isLink ?parent [i] = isTag ''A'' child"
    using len nth by (simp add: isLink_Cons del: childNodes.simps)
  have sub: "filter (isLink ?parent) (map ((#) i) (descendants child)) =
      map ((#) i) (filter (isLink child) (descendants child))"
    using filter_isLink_map[OF len] nth by simp
  have notboth: "isTag ''UL'' child \<Longrightarrow> \<not> isTag ''A'' child"
    by (simp add: isTag_def)
  have kid: "\<And>d u. snd (labelNavDepth child d u) = filter (isLink child) (descendants child)"
    using Cons.prems(1)[of child] by simp
  show ?case
    using rest here sub notboth
    by (simp add: snd_labelNavDepthLoop_Cons kid)
qed

lemma labelNavDepth_paths:
  "snd (labelNavDepth node d u) = filter (isLink node) (descendants node)"
proof (induction node arbitrary: d u)
  case (Element n as l cs)
  show ?case
    using labelNavDepthLoop_paths[of cs "[]" 0 d u n as l] Element.IH
    by (simp add: snd_labelNavDepth)
qed (simp_all add: snd_labelNavDepth)

lemma descendantsFrom_nonempty: "[] \<notin> set (descendantsFrom i cs)"
  by (induction cs arbitrary: i) auto

lemma descendants_nonempty: "[] \<notin> set (descendants c)"
  by (simp add: descendants_childNodes descendantsFrom_nonempty)

lemma isTag_A_Element: "isTag ''A'' c \<Longrightarrow> \<exists>n as l cs. c = Element n as l cs"
  by (cases c) (auto simp: isTag_def toUpperCase_def)

lemma map_of_setAttr [simp]: "map_of (setAttr k v as) k = Some v"
  by (induction as) auto

lemma getAttribute_withChildren [simp]: "getAttribute (withChildren c cs) k = getAttribute c k"
  by (cases c) simp_all

lemma childNodes_withChildren_Element [simp]:
  "childNodes (withChildren (Element n as l cs) cs') = cs'"
  by simp

lemma withChildren_setAttribute:
  "withChildren (setAttribute c k v) cs = setAttribute (withChildren c cs) k v"
  by (cases c) simp_all

lemma fst_labelNavDepth_setAttribute:
  "fst (labelNavDepth (setAttribute c k v) d u) = setAttribute (fst (labelNavDepth c d u)) k v"
  by (simp add: fst_labelNavDepth withChildren_setAttribute)

lemma levelAt_Cons:
  "levelAt c (i # q) = (if i < length (childNodes c) then levelAt (childNodes c ! i) q else None)"
  by (simp add: levelAt_def)

lemma levelAt_setAttribute_Cons [simp]: "levelAt (setAttribute c k v) (i # q) = levelAt c (i # q)"
  by (simp add: levelAt_Cons)

lemma length_fst_labelNavDepthLoop [simp]: "length (fst (labelNavDepthLoop cs i d u)) = length cs"
  by (induction cs arbitrary: i) (simp_all add: fst_labelNavDepthLoop_Cons)

lemma labelNavDepthLoop_levels:
  assumes "\<And>c d u p. c \<in> set cs \<Longrightarrow> p \<in> set (snd (labelNavDepth c d u)) \<Longrightarrow>
             levelAt (fst (labelNavDepth c d u)) p = Some (String_nat (d + listDepth u (ulCount c p)))"
    and "length pre = i" and "length pre' = i"
    and "p \<in> set (snd (labelNavDepthLoop cs i d u))"
  shows "levelAt (Element n as l (pre' @ fst (labelNavDepthLoop cs i d u))) p =
           Some (String_nat (d + listDepth u (ulCount (Element n as l (pre @ cs)) p)))"
  using assms
proof (induction cs arbitrary: i pre pre')
  case Nil
  then show ?case by simp
next
  case (Cons child rest)
  let ?child' = "if isTag ''UL'' child then fst (labelNavDepth child (if u then d + 1 else d) True)
      else fst (labelNavDepth
                 (if isTag ''A'' child
                  then setAttribute child ''data-mobilize-nav-level'' (String_nat d) else child) d u)"
  let ?rest' = "fst (labelNavDepthLoop rest (Suc i) d u)"
  have fst_eq: "fst (labelNavDepthLoop (child # rest) i d u) = ?child' # ?rest'"
    by (rule fst_labelNavDepthLoop_Cons)
  from Cons.prems(4) consider
      (here) q where "p = i # q" "isTag ''UL'' child" "q \<in> set (snd (labelNavDepth child (if u then d + 1 else d) True))"
    | (self) "p = [i]" "\<not> isTag ''UL'' child" "isTag ''A'' child"
    | (sub) q where "p = i # q" "\<not> isTag ''UL'' child" "q \<in> set (snd (labelNavDepth child d u))"
    | (later) "p \<in> set (snd (labelNavDepthLoop rest (Suc i) d u))"
    by (auto simp: snd_labelNavDepthLoop_Cons split: if_splits)
  then show ?case
  proof cases
    case here
    have qne: "q \<noteq> []"
      using here(3) descendants_nonempty[of child] by (auto simp: labelNavDepth_paths)
    then obtain j r where q: "q = j # r" by (cases q) auto
    have "levelAt ?child' q = Some (String_nat ((if u then d + 1 else d) + listDepth True (ulCount child q)))"
      using Cons.prems(1)[OF _ here(3)] here(2) by simp
    moreover have "(if u then d + 1 else d) + listDepth True (ulCount child q)
        = d + listDepth u (ulCount (Element n as l (pre @ child # rest)) p)"
      using here(1,2) q Cons.prems(2) by (simp add: listDepth_def nth_append)
    ultimately show ?thesis
      using here(1,2) Cons.prems(2,3) by (simp add: fst_eq levelAt_Cons nth_append)
  next
    case self
    obtain n' as' l' cs' where c: "child = Element n' as' l' cs'"
      using isTag_A_Element[OF self(3)] by blast
    have "levelAt ?child' [] = Some (String_nat d)"
      using self(2,3) by (simp add: levelAt_def fst_labelNavDepth c)
    then show ?thesis
      using self Cons.prems(2,3) by (simp add: fst_eq levelAt_Cons nth_append listDepth_def)
  next
    case sub
    have qne: "q \<noteq> []"
      using sub(3) descendants_nonempty[of child] by (auto simp: labelNavDepth_paths)
    then obtain j r where q: "q = j # r" by (cases q) auto
    have "levelAt ?child' q = levelAt (fst (labelNavDepth child d u)) q"
      using sub(2) q by (simp add: fst_labelNavDepth_setAttribute)
    also have "\<dots> = Some (String_nat (d + listDepth u (ulCount child q)))"
      using Cons.prems(1)[OF _ sub(3)] by simp
    finally have "levelAt ?child' q = Some (String_nat (d + listDepth u (ulCount child q)))" .
    moreover have "ulCount (Element n as l (pre @ child # rest)) p = ulCount child q"
      using sub(1,2) q Cons.prems(2) by (simp add: nth_append)
    ultimately show ?thesis
      using sub(1,2) Cons.prems(2,3) by (simp add: fst_eq levelAt_Cons nth_append)
  next
    case later
    have "levelAt (Element n as l ((pre' @ [?child']) @ ?rest')) p =
        Some (String_nat (d + listDepth u (ulCount (Element n as l ((pre @ [child]) @ rest)) p)))"
      using Cons.IH[of "pre @ [child]" "Suc i" "pre' @ [?child']"] Cons.prems(1,2,3) later
      by simp
    then show ?thesis by (simp add: fst_eq)
  qed
qed

lemma labelNavDepth_levels:
  "p \<in> set (snd (labelNavDepth node d u)) \<Longrightarrow>
   levelAt (fst (labelNavDepth node d u)) p = Some (String_nat (d + listDepth u (ulCount node p)))"
proof (induction node arbitrary: d u p)
  case (Element n as l cs)
  have "p \<in> set (snd (labelNavDepthLoop cs 0 d u))"
    using Element.prems by (simp add: snd_labelNavDepth)
  from labelNavDepthLoop_levels[of cs "[]" 0 "[]" p d u n as l, OF Element.IH _ _ this]
  show ?case by (simp add: fst_labelNavDepth)
qed (simp_all add: snd_labelNavDepth)

text \<open>
  C2: every A element below the section root is returned, in document order, and the
  level written on it is the start depth plus its list nesting: the number of UL
  elements strictly between the root and the link, less one when the traversal did not
  start in a list (the first UL only establishes the list context). Nothing else of the
  tree enters the depth.
\<close>

theorem labelNavDepth_list_nesting:
  "snd (labelNavDepth node d inUl) = filter (isLink node) (descendants node) \<and>
   map (levelAt (fst (labelNavDepth node d inUl))) (snd (labelNavDepth node d inUl)) =
   map (\<lambda>p. Some (String_nat (d + listDepth inUl (ulCount node p))))
       (filter (isLink node) (descendants node))"
  using labelNavDepth_levels[of _ node d inUl]
  by (simp add: labelNavDepth_paths)

subsection \<open>Duplicate menu entries\<close>

lemma dedupStep_valid:
  assumes "nodeAt navPanel p = Some a"
  shows "dedupStep url navPanel (m, del) p =
     (let (h, l) = dedupKey url navPanel p
      in case m h of
           None \<Rightarrow> (m(h \<mapsto> [l]), del)
         | Some ls \<Rightarrow> if l \<notin> set ls then (m(h \<mapsto> ls @ [l]), del)
                      else if parentIsLI navPanel p then (m, del @ [butlast p]) else (m, del))"
  using assms
  by (auto simp: dedupStep_def dedupKey_def parentIsLI_def Let_def split: option.splits)

lemma menuInv_seen:
  assumes "menuInv url navPanel m xs"
  shows "(h, l) \<in> dedupKey url navPanel ` set xs \<longleftrightarrow> (\<exists>ls. m h = Some ls \<and> l \<in> set ls)"
proof (cases "m h")
  case None
  then have notin: "h \<notin> fst ` dedupKey url navPanel ` set xs"
    using assms unfolding menuInv_def by blast
  have "(h, l) \<notin> dedupKey url navPanel ` set xs"
  proof
    assume "(h, l) \<in> dedupKey url navPanel ` set xs"
    then have "fst (h, l) \<in> fst ` dedupKey url navPanel ` set xs" by (rule imageI)
    then show False using notin by simp
  qed
  then show ?thesis using None by simp
next
  case (Some ls)
  then have "set ls = {l. (h, l) \<in> dedupKey url navPanel ` set xs}"
    using assms unfolding menuInv_def by blast
  then show ?thesis using Some by auto
qed

lemma menuInv_new:
  assumes "menuInv url navPanel m xs" "dedupKey url navPanel x = (h, l)" "m h = None"
  shows "menuInv url navPanel (m(h \<mapsto> [l])) (xs @ [x])"
proof -
  let ?K = "dedupKey url navPanel ` set xs"
  have K: "dedupKey url navPanel ` set (xs @ [x]) = insert (h, l) ?K"
    using assms(2) by auto
  have none: "\<And>l'. (h, l') \<notin> ?K"
    using menuInv_seen[OF assms(1)] assms(3) by simp
  have other: "\<And>h'. h' \<noteq> h \<Longrightarrow> (m h' = None \<longrightarrow> h' \<notin> fst ` ?K) \<and>
          (\<forall>ls. m h' = Some ls \<longrightarrow> set ls = {l. (h', l) \<in> ?K} \<and> ls \<noteq> [])"
    using assms(1) unfolding menuInv_def by blast
  show ?thesis
    unfolding menuInv_def K
  proof (intro allI)
    fix h'
    show "((m(h \<mapsto> [l])) h' = None \<longrightarrow> h' \<notin> fst ` insert (h, l) ?K) \<and>
          (\<forall>ls. (m(h \<mapsto> [l])) h' = Some ls \<longrightarrow>
                set ls = {la. (h', la) \<in> insert (h, l) ?K} \<and> ls \<noteq> [])"
    proof (cases "h' = h")
      case True
      then show ?thesis using none by auto
    next
      case False
      then show ?thesis using other[OF False] by auto
    qed
  qed
qed

lemma menuInv_add:
  assumes "menuInv url navPanel m xs" "dedupKey url navPanel x = (h, l)" "m h = Some ls"
  shows "menuInv url navPanel (m(h \<mapsto> ls @ [l])) (xs @ [x])"
proof -
  let ?K = "dedupKey url navPanel ` set xs"
  have K: "dedupKey url navPanel ` set (xs @ [x]) = insert (h, l) ?K"
    using assms(2) by auto
  have old: "\<And>l'. (h, l') \<in> ?K \<longleftrightarrow> l' \<in> set ls"
    using menuInv_seen[OF assms(1)] assms(3) by simp
  have other: "\<And>h'. h' \<noteq> h \<Longrightarrow> (m h' = None \<longrightarrow> h' \<notin> fst ` ?K) \<and>
          (\<forall>ls. m h' = Some ls \<longrightarrow> set ls = {l. (h', l) \<in> ?K} \<and> ls \<noteq> [])"
    using assms(1) unfolding menuInv_def by blast
  show ?thesis
    unfolding menuInv_def K
  proof (intro allI)
    fix h'
    show "((m(h \<mapsto> ls @ [l])) h' = None \<longrightarrow> h' \<notin> fst ` insert (h, l) ?K) \<and>
          (\<forall>ls'. (m(h \<mapsto> ls @ [l])) h' = Some ls' \<longrightarrow>
                set ls' = {la. (h', la) \<in> insert (h, l) ?K} \<and> ls' \<noteq> [])"
    proof (cases "h' = h")
      case True
      then show ?thesis using old by auto
    next
      case False
      then show ?thesis using other[OF False] by auto
    qed
  qed
qed

lemma menuInv_same:
  assumes "menuInv url navPanel m xs" "dedupKey url navPanel x = (h, l)" "m h = Some ls" "l \<in> set ls"
  shows "menuInv url navPanel m (xs @ [x])"
proof -
  have "(h, l) \<in> dedupKey url navPanel ` set xs"
    using menuInv_seen[OF assms(1)] assms(3,4) by simp
  then have eq: "dedupKey url navPanel ` set (xs @ [x]) = dedupKey url navPanel ` set xs"
    using assms(2) by auto
  show ?thesis
    unfolding menuInv_def eq using assms(1)[unfolded menuInv_def] .
qed

lemma foldl_dedupStep:
  assumes "\<forall>p\<in>set xs. nodeAt navPanel p \<noteq> None"
  shows "menuInv url navPanel (fst (foldl (dedupStep url navPanel) (Map.empty, []) xs)) xs \<and>
         snd (foldl (dedupStep url navPanel) (Map.empty, []) xs) =
           map butlast (filter (parentIsLI navPanel)
             (map ((!) xs) (filter (repeatedAt url navPanel xs) [0..<length xs])))"
  using assms
proof (induction xs rule: rev_induct)
  case Nil
  show ?case by (simp add: menuInv_def)
next
  case (snoc x xs)
  obtain m del where st: "foldl (dedupStep url navPanel) (Map.empty, []) xs = (m, del)"
    by (cases "foldl (dedupStep url navPanel) (Map.empty, []) xs")
  obtain a where a: "nodeAt navPanel x = Some a" using snoc.prems by auto
  obtain h l where k: "dedupKey url navPanel x = (h, l)" by (cases "dedupKey url navPanel x")
  have inv: "menuInv url navPanel m xs"
    and del: "del = map butlast (filter (parentIsLI navPanel)
             (map ((!) xs) (filter (repeatedAt url navPanel xs) [0..<length xs])))"
    using snoc.IH snoc.prems st by simp_all
  have old: "filter (repeatedAt url navPanel (xs @ [x])) [0..<length xs]
      = filter (repeatedAt url navPanel xs) [0..<length xs]"
    by (rule filter_cong) (auto simp: repeatedAt_def nth_append)
  have oldmap: "map ((!) (xs @ [x])) (filter (repeatedAt url navPanel xs) [0..<length xs])
      = map ((!) xs) (filter (repeatedAt url navPanel xs) [0..<length xs])"
    by (rule map_cong) (auto simp: nth_append)
  have rep: "repeatedAt url navPanel (xs @ [x]) (length xs) =
      ((h, l) \<in> dedupKey url navPanel ` set xs)"
    by (simp add: repeatedAt_def k)
  note seen = menuInv_seen[OF inv, of h l]
  have step: "foldl (dedupStep url navPanel) (Map.empty, []) (xs @ [x]) =
      (case m h of
           None \<Rightarrow> (m(h \<mapsto> [l]), del)
         | Some ls \<Rightarrow> if l \<notin> set ls then (m(h \<mapsto> ls @ [l]), del)
                      else if parentIsLI navPanel x then (m, del @ [butlast x]) else (m, del))"
    by (simp add: st dedupStep_valid[OF a] k)
  have rhs: "map butlast (filter (parentIsLI navPanel)
             (map ((!) (xs @ [x])) (filter (repeatedAt url navPanel (xs @ [x])) [0..<length (xs @ [x])])))
       = del @ (if (h, l) \<in> dedupKey url navPanel ` set xs \<and> parentIsLI navPanel x
                then [butlast x] else [])"
    by (simp add: old oldmap rep del)
  let ?S = "foldl (dedupStep url navPanel) (Map.empty, []) (xs @ [x])"
  have AB: "menuInv url navPanel (fst ?S) (xs @ [x]) \<and>
      snd ?S = del @ (if (h, l) \<in> dedupKey url navPanel ` set xs \<and> parentIsLI navPanel x
                then [butlast x] else [])"
  proof (cases "m h")
    case None
    then show ?thesis
      unfolding step using menuInv_new[OF inv k None] seen by simp
  next
    case (Some ls)
    show ?thesis
    proof (cases "l \<in> set ls")
      case True
      then show ?thesis
        unfolding step using menuInv_same[OF inv k Some True] seen Some by simp
    next
      case False
      then show ?thesis
        unfolding step using menuInv_add[OF inv k Some] seen Some by simp
    qed
  qed
  show ?case unfolding rhs using AB by blast
qed

lemma nodeAt_getElementsByTagName:
  "p \<in> set (getElementsByTagName root t) \<Longrightarrow> \<exists>a. nodeAt root p = Some a \<and> isTag (toUpperCase t) a"
  by (auto simp: getElementsByTagName_def split: option.splits)

lemma dedupScan_char:
  "dedupScan url navPanel =
     map butlast (filter (parentIsLI navPanel)
       (map ((!) (getElementsByTagName navPanel ''a''))
          (filter (repeatedAt url navPanel (getElementsByTagName navPanel ''a''))
             [0..<length (getElementsByTagName navPanel ''a'')])))"
proof -
  have "\<forall>p\<in>set (getElementsByTagName navPanel ''a''). nodeAt navPanel p \<noteq> None"
    using nodeAt_getElementsByTagName by fastforce
  from foldl_dedupStep[OF this] show ?thesis by (simp add: dedupScan_def)
qed










text \<open>
  C10: the nodes queued for deletion are the parents of the repeated anchors whose parent
  is an LI element, one entry for each such anchor, in document order. A repeated anchor
  whose parent is another element, as the title of a submenu inside its DIV, queues
  nothing.
\<close>

theorem dedupScan_only_list_items:
  "dedupScan url navPanel = map butlast (filter (parentIsLI navPanel) (repeatedAnchors url navPanel))"
  by (simp add: dedupScan_char repeatedAnchors_def Let_def)

lemma duplicate_submenu_titles_survive:
  "repeatedAnchors id (constructNavDom [twinGroupsNav]) = [[0, 1, 0, 0]] \<and>
   dedupNavMenuItems id (constructNavDom [twinGroupsNav]) = Inr (constructNavDom [twinGroupsNav])"
  by code_simp

subsection \<open>Building the menu\<close>

text \<open>
  C1 fails on the code: the levels are read back with \<^verbatim>\<open>getAttribute\<close>, which
  returns strings, and \<^verbatim>\<open>navLevel1 < navLevel2\<close> compares two strings
  lexicographically. A link at depth 9 followed by a link at depth 10 opens no group: both
  are appended as leaves of the same submenu.
\<close>

theorem constructNavSection_level_nine_ten:
  "constructNavSection
      (nestedLists 10 [link ''/nine'' ''Nine'', block ''UL'' [link ''/ten'' ''Ten'']]) navTopUl0 =
   foldl appendChild navTopUl0
     [leafItem (levelled (link ''/nine'' ''Nine'') 9), leafItem (levelled (link ''/ten'' ''Ten'') 10)]"
  by code_simp

lemma constructNavSection_level_one_two:
  "constructNavSection
      (nestedLists 2 [link ''/one'' ''One'', block ''UL'' [link ''/two'' ''Two'']]) navTopUl0 =
   foldl appendChild navTopUl0
     [groupItem ''One'' [leafItem (levelled (link ''/two'' ''Two'') 2)]]"
  by code_simp

text \<open>
  With one digit the comparison of the strings is the comparison of the depths, and the
  builder opens a group exactly at a depth increase.
\<close>

lemma String_nat_digit: "n < 10 \<Longrightarrow> String_nat n = [''0123456789'' ! n]"
  by (simp add: String_nat.simps)

lemma jsLess_single_digit:
  assumes "a < 10" and "b < 10"
  shows "jsLess (Some (String_nat a)) (Some (String_nat b)) = (a < b)"
proof -
  have cases: "\<And>n::nat. n < 10 \<Longrightarrow> n \<in> {0, 1, 2, 3, 4, 5, 6, 7, 8, 9}" by auto
  have digit: "\<And>n::nat. n < 10 \<Longrightarrow> of_char (''0123456789'' ! n) = 48 + n"
    using cases by fastforce
  have inj: "(''0123456789'' ! a = ''0123456789'' ! b) = (a = b)"
    using digit[OF assms(1)] digit[OF assms(2)] by (metis add_left_cancel)
  show ?thesis
    using digit[OF assms(1)] digit[OF assms(2)] inj assms
    by (simp add: jsLess_def String_nat_digit)
qed

lemma jsLess_nine_ten: "\<not> jsLess (Some (String_nat 9)) (Some (String_nat 10))"
  by code_simp

subsection \<open>The enlarge heuristic\<close>

lemma enlargeableFrom_Nil [simp]: "enlargeableFrom vis e k pre [] = (pre \<le> 60)"
  by (simp add: enlargeableFrom_def siblingsFrom_def)







subsection \<open>Changes at a path\<close>

lemma nodeAt_append:
  "nodeAt t (p @ q) = (case nodeAt t p of Some n \<Rightarrow> nodeAt n q | None \<Rightarrow> None)"
  by (induction p arbitrary: t) simp_all

lemma childNodes_withChildren:
  "isElement t \<Longrightarrow> childNodes (withChildren t cs) = cs"
  by (cases t) (simp_all add: isElement_def)

lemma nodeName_withChildren [simp]: "nodeName (withChildren t cs) = nodeName t"
  by (cases t) simp_all

lemma isElement_withChildren [simp]: "isElement (withChildren t cs) = isElement t"
  by (cases t) (simp_all add: isElement_def)

lemma isTag_withChildren [simp]: "isTag x (withChildren t cs) = isTag x t"
  by (simp add: isTag_def)

lemma withChildren_childNodes [simp]: "withChildren t (childNodes t) = t"
  by (cases t) simp_all

lemma withChildren_withChildren [simp]: "withChildren (withChildren t cs) cs' = withChildren t cs'"
  by (cases t) simp_all

lemma has_children_isElement: "i < length (childNodes t) \<Longrightarrow> isElement t"
  by (cases t) (simp_all add: isElement_def)

lemma nodeAt_updateAt:
  "nodeAt t b = Some n \<Longrightarrow> nodeAt (updateAt b f t) b = Some (f n)"
proof (induction b arbitrary: t)
  case Nil
  then show ?case by simp
next
  case (Cons i b)
  then have i: "i < length (childNodes t)" by (simp split: if_splits)
  then have "isElement t" by (rule has_children_isElement)
  then show ?case using Cons i by (simp add: childNodes_withChildren)
qed

lemma removeChild_Cons:
  "p \<noteq> [] \<Longrightarrow> removeChild (i # p) doc =
     (if i < length (childNodes doc)
      then withChildren doc ((childNodes doc)[i := removeChild p (childNodes doc ! i)])
      else doc)"
  by (cases p) simp_all

lemma removeChild_updateAt:
  "removeChild (b @ [n]) t =
     updateAt b (\<lambda>parent. withChildren parent (take n (childNodes parent) @ drop (Suc n) (childNodes parent))) t"
  by (induction b arbitrary: t) (simp_all add: removeChild_Cons)

lemma updateAt_updateAt:
  "updateAt b g (updateAt b f t) = updateAt b (g \<circ> f) t"
proof (induction b arbitrary: t)
  case Nil
  show ?case by simp
next
  case (Cons i b)
  show ?case
  proof (cases "i < length (childNodes t)")
    case True
    then have "isElement t" by (rule has_children_isElement)
    then show ?thesis using True Cons by (simp add: childNodes_withChildren)
  next
    case False
    then show ?thesis by simp
  qed
qed

lemma updateAt_id:
  "nodeAt t b = Some n \<Longrightarrow> f n = n \<Longrightarrow> updateAt b f t = t"
proof (induction b arbitrary: t)
  case Nil
  then show ?case by simp
next
  case (Cons i b)
  then have i: "i < length (childNodes t)" by (simp split: if_splits)
  then show ?case using Cons by simp
qed

lemma nodes_withChildren:
  "isElement t \<Longrightarrow> nodes (withChildren t cs) = Suc (sum_list (map nodes cs))"
  by (cases t) (simp_all add: isElement_def)

lemma nodes_Element_children: "isElement t \<Longrightarrow> nodes t = Suc (sum_list (map nodes (childNodes t)))"
  by (cases t) (simp_all add: isElement_def)

lemma sum_list_nodes_update:
  "i < length cs \<Longrightarrow>
   sum_list (map nodes (cs[i := c])) + nodes (cs ! i) = sum_list (map nodes cs) + nodes c"
proof (induction cs arbitrary: i)
  case Nil
  then show ?case by simp
next
  case (Cons x cs)
  show ?case
  proof (cases i)
    case 0
    then show ?thesis by simp
  next
    case (Suc k)
    then have "k < length cs" using Cons.prems by simp
    from Cons.IH[OF this] show ?thesis using Suc by simp
  qed
qed

lemma nodes_updateAt:
  "nodeAt t b = Some n \<Longrightarrow> nodes (updateAt b f t) + nodes n = nodes t + nodes (f n)"
proof (induction b arbitrary: t)
  case Nil
  then show ?case by simp
next
  case (Cons i b)
  then have i: "i < length (childNodes t)" by (simp split: if_splits)
  then have el: "isElement t" by (rule has_children_isElement)
  let ?c = "updateAt b f (childNodes t ! i)"
  have ih: "nodes ?c + nodes n = nodes (childNodes t ! i) + nodes (f n)"
    using Cons i by simp
  have 1: "nodes (updateAt (i # b) f t) = Suc (sum_list (map nodes ((childNodes t)[i := ?c])))"
    using i el by (simp add: nodes_withChildren)
  have 2: "nodes t = Suc (sum_list (map nodes (childNodes t)))"
    using el by (rule nodes_Element_children)
  show ?case
    using ih sum_list_nodes_update[OF i, of ?c] unfolding 1 2 by linarith
qed

subsection \<open>The body of the page\<close>

lemma find_upt_cong:
  "n = m \<Longrightarrow> (\<And>k. k < m \<Longrightarrow> P k = Q k) \<Longrightarrow> find P [0..<n] = find Q [0..<m]"
  by (rule find_cong) auto

lemma find_upt_Some: "find P [0..<n] = Some i \<Longrightarrow> i < n \<and> P i"
  by (auto simp: find_Some_iff)

lemma body_shape:
  assumes "body doc = Some b"
  obtains i j h where "b = [i, j]" "i < length (childNodes doc)" "childNodes doc ! i = h"
    "j < length (childNodes h)"
    "(isTag ''BODY'' (childNodes h ! j) \<or> isTag ''FRAMESET'' (childNodes h ! j))"
proof -
  from assms obtain html where de: "documentElement doc = Some html"
    by (auto simp: body_def split: option.splits)
  then obtain i where i: "html = [i]" "find (\<lambda>i. isElement (childNodes doc ! i)) [0..<length (childNodes doc)] = Some i"
    by (auto simp: documentElement_def)
  then have il: "i < length (childNodes doc)" using find_upt_Some by fastforce
  let ?h = "childNodes doc ! i"
  have h: "nodeAt doc html = Some ?h" using i il by simp
  from assms de h obtain j where j: "b = html @ [j]"
      "find (\<lambda>j. isTag ''BODY'' (childNodes ?h ! j) \<or> isTag ''FRAMESET'' (childNodes ?h ! j))
                    [0..<length (childNodes ?h)] = Some j"
    by (auto simp: body_def split: if_splits)
  from find_upt_Some[OF j(2)] have "j < length (childNodes ?h)"
    "isTag ''BODY'' (childNodes ?h ! j) \<or> isTag ''FRAMESET'' (childNodes ?h ! j)" by simp_all
  then show ?thesis using that[of i j ?h] i j il by simp
qed

lemma body_updateAt:
  assumes "body doc = Some b" and "\<And>n. nodeName (f n) = nodeName n"
  shows "body (updateAt b f doc) = Some b"
proof -
  from assms(1) obtain html where de: "documentElement doc = Some html"
    by (auto simp: body_def split: option.splits)
  then obtain i where i: "html = [i]" "find (\<lambda>i. isElement (childNodes doc ! i)) [0..<length (childNodes doc)] = Some i"
    by (auto simp: documentElement_def)
  then have il: "i < length (childNodes doc)" using find_upt_Some by fastforce
  let ?h = "childNodes doc ! i"
  have h: "nodeAt doc html = Some ?h" using i il by simp
  from assms(1) de h obtain j where j: "b = [i, j]"
      "find (\<lambda>j. isTag ''BODY'' (childNodes ?h ! j) \<or> isTag ''FRAMESET'' (childNodes ?h ! j))
                    [0..<length (childNodes ?h)] = Some j"
    using i by (auto simp: body_def split: if_splits)
  have html: "isTag ''HTML'' ?h"
    using assms(1) de h by (auto simp: body_def split: if_splits)
  from find_upt_Some[OF j(2)] have jl: "j < length (childNodes ?h)" by simp
  have eld: "isElement doc" using il by (rule has_children_isElement)
  have elh: "isElement ?h" using jl by (rule has_children_isElement)
  let ?hs' = "(childNodes ?h)[j := f (childNodes ?h ! j)]"
  let ?h' = "withChildren ?h ?hs'"
  let ?doc' = "withChildren doc ((childNodes doc)[i := ?h'])"
  have upd: "updateAt b f doc = ?doc'"
    using il jl j(1) by simp
  have cs': "childNodes ?doc' = (childNodes doc)[i := ?h']"
    using eld by (simp add: childNodes_withChildren)
  have de': "documentElement ?doc' = Some [i]"
  proof -
    have "find (\<lambda>k. isElement (childNodes ?doc' ! k)) [0..<length (childNodes ?doc')]
        = find (\<lambda>i. isElement (childNodes doc ! i)) [0..<length (childNodes doc)]"
      using il by (intro find_upt_cong) (auto simp: cs' nth_list_update)
    then show ?thesis using i(2) by (simp add: documentElement_def)
  qed
  have h': "nodeAt ?doc' [i] = Some ?h'" using il by (simp add: cs')
  have hs': "childNodes ?h' = ?hs'" using elh by (simp add: childNodes_withChildren)
  have tag: "\<And>x n. isTag x (f n) = isTag x n" by (simp add: isTag_def assms(2))
  have "find (\<lambda>k. isTag ''BODY'' (childNodes ?h' ! k) \<or> isTag ''FRAMESET'' (childNodes ?h' ! k))
          [0..<length (childNodes ?h')]
      = find (\<lambda>j. isTag ''BODY'' (childNodes ?h ! j) \<or> isTag ''FRAMESET'' (childNodes ?h ! j))
                    [0..<length (childNodes ?h)]"
    using jl by (intro find_upt_cong) (auto simp: hs' nth_list_update tag)
  then have "body ?doc' = Some [i, j]"
    using de' h' j(2) html by (simp add: body_def)
  then show ?thesis using upd j(1) by simp
qed

lemma nodeName_appendChild [simp]: "nodeName (appendChild n c) = nodeName n"
  by (cases n) simp_all

lemma isTag_isElement: "isTag ''BODY'' n \<or> isTag ''FRAMESET'' n \<Longrightarrow> isElement n"
  by (cases n) (auto simp: isTag_def toUpperCase_def isElement_def)

lemma body_node:
  assumes "body doc = Some b"
  obtains n where "nodeAt doc b = Some n" "isElement n"
proof -
  from assms obtain i j h where s: "b = [i, j]" "i < length (childNodes doc)" "childNodes doc ! i = h"
    "j < length (childNodes h)"
    "(isTag ''BODY'' (childNodes h ! j) \<or> isTag ''FRAMESET'' (childNodes h ! j))"
    by (rule body_shape)
  have "nodeAt doc b = Some (childNodes h ! j)" using s by simp
  moreover have "isElement (childNodes h ! j)" using s(5) by (rule isTag_isElement)
  ultimately show ?thesis using that by blast
qed

lemma childNodes_appendChild: "isElement n \<Longrightarrow> childNodes (appendChild n c) = childNodes n @ [c]"
  by (cases n) (simp_all add: isElement_def)

lemma remove_appended:
  "isElement n \<Longrightarrow>
   withChildren (appendChild n c)
     (take (length (childNodes n)) (childNodes (appendChild n c)) @
      drop (Suc (length (childNodes n))) (childNodes (appendChild n c))) = n"
  by (cases n) (simp_all add: isElement_def)

subsection \<open>Discovery with an explicit panel\<close>

lemma getElementById_nonempty: "getElementById doc v = Some p \<Longrightarrow> p \<noteq> []"
proof -
  assume "getElementById doc v = Some p"
  then have "p \<in> set (elementPaths doc)"
    by (auto simp: getElementById_def find_Some_iff split: if_splits)
  then have "p \<in> set (descendants doc)" by (simp add: elementPaths_def)
  then show ?thesis using descendants_nonempty[of doc] by auto
qed

lemma nodes_remove_nth:
  "m < length cs \<Longrightarrow>
   sum_list (map nodes (take m cs @ drop (Suc m) cs)) + nodes (cs ! m) = sum_list (map nodes cs)"
proof -
  assume m: "m < length cs"
  have "cs = take m cs @ cs ! m # drop (Suc m) cs" using m by (rule id_take_nth_drop)
  then have "sum_list (map nodes cs) = sum_list (map nodes (take m cs @ cs ! m # drop (Suc m) cs))"
    by simp
  then show ?thesis by simp
qed

lemma nodes_removeChild:
  assumes "nodeAt doc (pp @ [m]) = Some node"
  shows "nodes (removeChild (pp @ [m]) doc) + nodes node = nodes doc"
proof -
  from assms obtain parent where parent: "nodeAt doc pp = Some parent"
      and m: "m < length (childNodes parent)" and node: "childNodes parent ! m = node"
    by (auto simp: nodeAt_append split: option.splits if_splits)
  have el: "isElement parent" using m by (rule has_children_isElement)
  let ?f = "\<lambda>parent. withChildren parent (take m (childNodes parent) @ drop (Suc m) (childNodes parent))"
  have "nodes (updateAt pp ?f doc) + nodes parent = nodes doc + nodes (?f parent)"
    using parent by (rule nodes_updateAt)
  moreover have "nodes (?f parent) + nodes node = nodes parent"
  proof -
    have 1: "nodes (?f parent) = Suc (sum_list (map nodes (take m (childNodes parent) @ drop (Suc m) (childNodes parent))))"
      using el by (rule nodes_withChildren)
    have 2: "nodes parent = Suc (sum_list (map nodes (childNodes parent)))"
      using el by (rule nodes_Element_children)
    show ?thesis using nodes_remove_nth[OF m] node unfolding 1 2 by simp
  qed
  ultimately show ?thesis by (simp add: removeChild_updateAt)
qed

lemma nodes_appendChild: "isElement n \<Longrightarrow> nodes (appendChild n c) = nodes n + nodes c"
  by (cases n) (simp_all add: isElement_def)

text \<open>
  C9 (as amended): when the explicit panel id resolves to an element and discovery
  succeeds, the list of sections is empty (the panel is kept as the nav panel, it is not a
  section), the panel is the last child of the page body, with the subtree it had before,
  no node of the page is added or lost, and running discovery again on the resulting page,
  where the id resolves to the relocated panel, returns the same page and the same result.
\<close>

theorem findNavSections_explicit_panel:
  assumes "getElementById doc NAV_PANEL = Some panel"
    and "findNavSections doc ids = Inr r"
  shows "navSectionPaths r = [] \<and>
         (\<exists>b k. navPanelPath r = Some (b @ [k]) \<and> body (page r) = Some b \<and>
                childCountAt (page r) b = Suc k \<and>
                nodeAt (page r) (b @ [k]) = nodeAt doc panel) \<and>
         nodes (page r) = nodes doc \<and>
         (getElementById (page r) NAV_PANEL = navPanelPath r \<longrightarrow>
            findNavSections (page r) ids' = Inr r)"
proof -
  let ?doc1 = "removeChild panel doc"
  have unfold: "findNavSections doc ids =
      (case (body doc, nodeAt doc panel) of
             (Some b, Some node) \<Rightarrow>
               if take (length panel) b = panel then Inl HierarchyRequestError
               else
                 (case body ?doc1 of
                       None \<Rightarrow> Inl TypeError
                     | Some b1 \<Rightarrow>
                         Inr \<lparr>page = appendChildAt b1 node ?doc1,
                              navPanelPath = Some (b1 @ [childCountAt ?doc1 b1]),
                              navSectionPaths = []\<rparr>)
           | _ \<Rightarrow> Inl TypeError)"
    by (simp add: findNavSections_def assms(1) Let_def split: option.splits)
  obtain b where b: "body doc = Some b"
    using assms(2) unfolding unfold by (cases "body doc") simp_all
  obtain node where node: "nodeAt doc panel = Some node"
    using assms(2) unfolding unfold b by (cases "nodeAt doc panel") simp_all
  have np: "take (length panel) b \<noteq> panel"
    using assms(2) unfolding unfold b node by (cases "take (length panel) b = panel") simp_all
  obtain b1 where b1: "body ?doc1 = Some b1"
    using assms(2) np unfolding unfold b node by (cases "body ?doc1") simp_all
  have r: "r = \<lparr>page = appendChildAt b1 node ?doc1,
                    navPanelPath = Some (b1 @ [childCountAt ?doc1 b1]), navSectionPaths = []\<rparr>"
    using assms(2) np unfolding unfold b node b1 by simp
  from b1 obtain n1 where n1: "nodeAt ?doc1 b1 = Some n1" and el1: "isElement n1"
    by (rule body_node)
  let ?k = "length (childNodes n1)"
  let ?app = "\<lambda>parent. appendChild parent node"
  have k: "childCountAt ?doc1 b1 = ?k" using n1 by (simp add: childCountAt_def)
  have page: "page r = updateAt b1 ?app ?doc1" by (simp add: r appendChildAt_def)
  have body2: "body (page r) = Some b1"
    unfolding page using b1 by (rule body_updateAt) simp
  have at_b1: "nodeAt (page r) b1 = Some (appendChild n1 node)"
    unfolding page using n1 by (rule nodeAt_updateAt)
  have count2: "childCountAt (page r) b1 = Suc ?k"
    using at_b1 el1 by (simp add: childCountAt_def childNodes_appendChild)
  have at_panel: "nodeAt (page r) (b1 @ [?k]) = Some node"
    using at_b1 el1 by (simp add: nodeAt_append childNodes_appendChild)
  have ne: "panel \<noteq> []" using assms(1) by (rule getElementById_nonempty)
  then obtain pp m where pm: "panel = pp @ [m]" by (metis rev_exhaust)
  have n_doc1: "nodes ?doc1 + nodes node = nodes doc"
    using node unfolding pm by (rule nodes_removeChild)
  have "nodes (page r) + nodes n1 = nodes ?doc1 + nodes (appendChild n1 node)"
    unfolding page using n1 by (rule nodes_updateAt)
  then have n_page: "nodes (page r) = nodes doc"
    using n_doc1 el1 by (simp add: nodes_appendChild)
  have again: "findNavSections (page r) ids' = Inr r"
    if found: "getElementById (page r) NAV_PANEL = navPanelPath r"
  proof -
    let ?rem = "\<lambda>parent. withChildren parent
         (take ?k (childNodes parent) @ drop (Suc ?k) (childNodes parent))"
    have f: "getElementById (page r) NAV_PANEL = Some (b1 @ [?k])"
      using found by (simp add: r k)
    have "removeChild (b1 @ [?k]) (page r) = updateAt b1 (?rem \<circ> ?app) ?doc1"
      by (simp add: removeChild_updateAt page updateAt_updateAt)
    also have "\<dots> = ?doc1"
      using n1 by (rule updateAt_id) (simp add: remove_appended[OF el1])
    finally have restored: "removeChild (b1 @ [?k]) (page r) = ?doc1" .
    have notprefix: "take (length (b1 @ [?k])) b1 \<noteq> b1 @ [?k]"
    proof
      assume "take (length (b1 @ [?k])) b1 = b1 @ [?k]"
      then have "length (take (length (b1 @ [?k])) b1) = length (b1 @ [?k])" by (rule arg_cong)
      then show False by simp
    qed
    have "findNavSections (page r) ids' =
        Inr \<lparr>page = appendChildAt b1 node ?doc1,
              navPanelPath = Some (b1 @ [childCountAt ?doc1 b1]), navSectionPaths = []\<rparr>"
      unfolding findNavSections_def f option.case body2 at_panel prod.case Let_def restored b1
      using notprefix by (simp only: if_False)
    then show ?thesis by (simp only: r)
  qed
  have p2: "navPanelPath r = Some (b1 @ [?k])" by (simp add: r k)
  have s2: "navSectionPaths r = []" by (simp add: r)
  have ex: "\<exists>b k. navPanelPath r = Some (b @ [k]) \<and> body (page r) = Some b \<and>
                childCountAt (page r) b = Suc k \<and>
                nodeAt (page r) (b @ [k]) = nodeAt doc panel"
    using p2 body2 count2 at_panel node
    by (intro exI[of _ b1] exI[of _ "?k"]) simp
  show ?thesis
    using s2 ex n_page again by blast
qed

lemma panelPage_run: "findNavSections panelPage ids = Inr relocated"
  by (cases ids) (simp_all add: findNavSections_def, code_simp+)

text \<open>The theorem at \<open>panelPage\<close>, whose panel is the first child of the body.\<close>

theorem findNavSections_explicit_panel_witness:
  "getElementById panelPage NAV_PANEL = Some [0, 1, 0] \<and>
   findNavSections panelPage None = Inr relocated \<and>
   navSectionPaths relocated = [] \<and>
   nodes (page relocated) = nodes panelPage \<and>
   findNavSections (page relocated) None = Inr relocated"
proof -
  have found: "getElementById panelPage NAV_PANEL = Some [0, 1, 0]" by code_simp
  have again: "getElementById (page relocated) NAV_PANEL = navPanelPath relocated" by code_simp
  show ?thesis
    using findNavSections_explicit_panel[OF found panelPage_run[of None], of None] found again
    by (simp add: panelPage_run)
qed

text \<open>
  C9 as stated fails: on \<open>panelPage\<close> the panel exists and discovery returns no section
  at all, not the panel as the only section.
\<close>

theorem findNavSections_panel_is_no_section_counterexample:
  "getElementById panelPage NAV_PANEL = Some [0, 1, 0] \<and>
   (case findNavSections panelPage None of
      Inr r \<Rightarrow> navPanelPath r = Some [0, 1, 1] \<and> navSectionPaths r = [] | Inl e \<Rightarrow> False)"
proof -
  have "getElementById panelPage NAV_PANEL = Some [0, 1, 0]" by code_simp
  then show ?thesis by (simp add: panelPage_run relocated_def)
qed

subsection \<open>Discovery from the list of ids\<close>

lemma findNavLoop_append:
  "findNavLoop st (xs @ ys) =
     (case findNavLoop st xs of Inl e \<Rightarrow> Inl e | Inr st' \<Rightarrow> findNavLoop st' ys)"
  by (induction xs arbitrary: st) (simp_all split: sum.splits)

lemma findNavStep_unresolved: "resolveId (document st) v = None \<Longrightarrow> findNavStep st v = Inl TypeError"
  by (simp add: findNavStep_def)

text \<open>
  C8 (as amended): when the explicit panel is absent and an id of the list resolves to no
  element in the document reached after the ids before it, discovery ends with a
  TypeError and records no section, whatever ids follow.
\<close>

theorem findNavSections_unresolved_id_aborts:
  assumes "getElementById doc NAV_PANEL = None"
    and "case findNavLoop \<lparr>document = doc, parents = Map.empty, elements = []\<rparr> pre of
           Inr st \<Rightarrow> resolveId (document st) v = None | Inl e \<Rightarrow> False"
  shows "findNavSections doc (Some (pre @ v # post)) = Inl TypeError"
proof -
  from assms(2) obtain st
    where st: "findNavLoop \<lparr>document = doc, parents = Map.empty, elements = []\<rparr> pre = Inr st"
      and un: "resolveId (document st) v = None"
    by (auto split: sum.splits)
  have "findNavLoop \<lparr>document = doc, parents = Map.empty, elements = []\<rparr> (pre @ v # post)
      = Inl TypeError"
    by (simp add: findNavLoop_append st findNavStep_unresolved[OF un])
  then show ?thesis by (simp add: findNavSections_def assms(1))
qed

text \<open>The theorem at a page with two lists, for an unknown id between their ids.\<close>

theorem findNavSections_unresolved_id_aborts_witness:
  "findNavSections (wrapperPage ''menu'') (Some ([''nav1''] @ ''missing'' # [''nav2''])) = Inl TypeError"
proof -
  have 1: "getElementById (wrapperPage ''menu'') NAV_PANEL = None" by code_simp
  have 2: "case findNavLoop \<lparr>document = wrapperPage ''menu'', parents = Map.empty, elements = []\<rparr> [''nav1''] of
           Inr st \<Rightarrow> resolveId (document st) ''missing'' = None | Inl e \<Rightarrow> False"
    by code_simp
  show ?thesis using findNavSections_unresolved_id_aborts[OF 1 2] .
qed

text \<open>
  C8 as stated fails: with the unknown id before it, the section of \<open>nav2\<close> is not
  discovered; without it, it is.
\<close>

theorem findNavSections_failure_stops_discovery_counterexample:
  "findNavSections (wrapperPage ''menu'') (Some [''missing'', ''nav2'']) = Inl TypeError \<and>
   (case findNavSections (wrapperPage ''menu'') (Some [''nav2'']) of
      Inr r \<Rightarrow> navSectionPaths r = [[0, 1, 0]] | Inl e \<Rightarrow> False)"
  by code_simp

text \<open>
  C6 fails on the code: \<^verbatim>\<open>parent.id in parents\<close> is also true for the names that
  every object inherits, such as \<^verbatim>\<open>constructor\<close>. Under a parent with such an id
  the heuristic is never evaluated and neither the parent nor a child is pushed.
\<close>

theorem findNavSections_prototype_key_parent:
  "(case findNavSections (wrapperPage ''constructor'') (Some [''nav1'', ''nav2'']) of
      Inr r \<Rightarrow> navSectionPaths r = [] | Inl e \<Rightarrow> False)"
  by code_simp

lemma findNavSections_ordinary_parent:
  "(case findNavSections (wrapperPage ''menu'') (Some [''nav1'', ''nav2'']) of
      Inr r \<Rightarrow> navSectionPaths r = [[0, 1, 0, 0], [0, 1, 0, 1]] | Inl e \<Rightarrow> False)"
  by code_simp

lemma findNavStep_by_parent_identity:
  assumes "resolveId (document st) v = Some element" and "element \<noteq> []"
    and "parentKey (document st) element \<notin> set objectPrototypeKeys"
  shows "findNavStep st v =
     Inr (case parents st (parentKey (document st) element) of
            None \<Rightarrow>
              \<lparr>document = withParentId (document st) element,
               parents = (parents st)(parentKey (document st) element \<mapsto>
                            canEnlargeNav (withParentId (document st) element) element),
               elements = elements st @
                 [if canEnlargeNav (withParentId (document st) element) element
                  then butlast element else element]\<rparr>
          | Some enlarged \<Rightarrow>
              \<lparr>document = withParentId (document st) element, parents = parents st,
               elements = elements st @ (if enlarged then [] else [element])\<rparr>)"
  using assms
  by (auto simp: findNavStep_def inParents_def truthyParent_def Let_def split: option.splits)

lemma findNavStep_keeps_decisions:
  assumes "findNavStep st v = Inr st'" and "parents st k = Some enlarged"
  shows "parents st' k = Some enlarged"
  using assms
  by (auto simp: findNavStep_def inParents_def Let_def split: option.splits if_splits)

lemma findNavLoop_keeps_decisions:
  "findNavLoop st ids = Inr st' \<Longrightarrow> parents st k = Some enlarged \<Longrightarrow> parents st' k = Some enlarged"
proof (induction ids arbitrary: st)
  case Nil
  then show ?case by simp
next
  case (Cons v ids)
  then obtain st1 where 1: "findNavStep st v = Inr st1" and 2: "findNavLoop st1 ids = Inr st'"
    by (auto split: sum.splits)
  from findNavStep_keeps_decisions[OF 1 Cons.prems(2)] Cons.IH[OF 2] show ?case by simp
qed

subsection \<open>The elements to offset\<close>

lemma map_filter_map: "List.map_filter f (map g xs) = List.map_filter (f \<circ> g) xs"
  by (induction xs) (simp_all split: option.splits)

lemma ancestorsAt_Nil [simp]: "ancestorsAt root [] = []"
  by (simp add: ancestorsAt_def)

lemma ancestorsAt_Cons:
  assumes "i < length (childNodes root)"
  shows "ancestorsAt root (i # q) = root # ancestorsAt (childNodes root ! i) q"
proof -
  have "[0..<length (i # q)] = 0 # map Suc [0..<length q]"
    by (simp add: upt_conv_Cons map_Suc_upt del: upt_Suc)
  then have "ancestorsAt root (i # q) =
      root # List.map_filter ((\<lambda>k. nodeAt root (take k (i # q))) \<circ> Suc) [0..<length q]"
    by (simp add: ancestorsAt_def map_filter_map del: upt_Suc)
  also have "(\<lambda>k. nodeAt root (take k (i # q))) \<circ> Suc = (\<lambda>k. nodeAt (childNodes root ! i) (take k q))"
    using assms by (auto simp: fun_eq_iff)
  finally show ?thesis by (simp add: ancestorsAt_def)
qed

lemma findElementsToOffsetLoop_mem:
  "(i # q) \<in> set (findElementsToOffsetLoop px cs k f) \<longleftrightarrow>
     k \<le> i \<and> i - k < length cs \<and> isElement (cs ! (i - k)) \<and>
     q \<in> set (findElementsToOffsetHelper px (cs ! (i - k)) f)"
proof (induction cs arbitrary: k)
  case Nil
  show ?case by simp
next
  case (Cons c cs)
  show ?case
  proof (cases "i = k")
    case True
    have "(i # q) \<notin> set (findElementsToOffsetLoop px cs (Suc k) f)"
      using Cons.IH[of "Suc k"] True by simp
    then show ?thesis using True by auto
  next
    case False
    then have "(i # q) \<in> set (findElementsToOffsetLoop px (c # cs) k f) \<longleftrightarrow>
        (i # q) \<in> set (findElementsToOffsetLoop px cs (Suc k) f)" by auto
    also have "\<dots> \<longleftrightarrow> Suc k \<le> i \<and> i - Suc k < length cs \<and> isElement (cs ! (i - Suc k)) \<and>
        q \<in> set (findElementsToOffsetHelper px (cs ! (i - Suc k)) f)"
      by (rule Cons.IH)
    also have "\<dots> \<longleftrightarrow> k \<le> i \<and> i - k < length (c # cs) \<and> isElement ((c # cs) ! (i - k)) \<and>
        q \<in> set (findElementsToOffsetHelper px ((c # cs) ! (i - k)) f)"
    proof (cases "k < i")
      case True
      then obtain d where d: "i - k = Suc d" "i - Suc k = d" by (cases "i - k") auto
      show ?thesis using True d by auto
    next
      case False
      then show ?thesis using \<open>i \<noteq> k\<close> by auto
    qed
    finally show ?thesis .
  qed
qed

lemma findElementsToOffsetLoop_nonempty: "[] \<notin> set (findElementsToOffsetLoop px cs k f)"
  by (induction cs arbitrary: k) auto

lemma offsetCandidateFrom_isElement: "offsetCandidateFrom px f root q \<Longrightarrow> isElement root"
proof (cases q)
  case Nil
  assume "offsetCandidateFrom px f root q"
  then show ?thesis using Nil by (simp add: offsetCandidateFrom_def)
next
  case (Cons i q')
  assume "offsetCandidateFrom px f root q"
  then have "i < length (childNodes root)"
    using Cons by (auto simp: offsetCandidateFrom_def split: option.splits if_splits)
  then show ?thesis by (rule has_children_isElement)
qed

lemma offsetCandidateFrom_Cons:
  "offsetCandidateFrom px f root (i # q) \<longleftrightarrow>
     \<not> overlayElement root \<and> i < length (childNodes root) \<and>
     offsetCandidateFrom px (if cssPosition (computedStyle root) \<noteq> ''static'' then True else f)
       (childNodes root ! i) q"
proof (cases "i < length (childNodes root)")
  case True
  then show ?thesis
    by (auto simp: offsetCandidateFrom_def ancestorsAt_Cons split: option.splits)
next
  case False
  then show ?thesis by (simp add: offsetCandidateFrom_def)
qed

lemma findElementsToOffsetHelper_mem:
  "isElement root \<Longrightarrow>
   q \<in> set (findElementsToOffsetHelper px root f) \<longleftrightarrow> offsetCandidateFrom px f root q"
proof (induction q arbitrary: root f)
  case Nil
  then obtain n as l cs where root: "root = Element n as l cs"
    by (cases root) (simp_all add: isElement_def)
  show ?case
    using findElementsToOffsetLoop_nonempty
    by (auto simp: root offsetCandidateFrom_def isElement_def Let_def)
next
  case (Cons i q)
  then obtain n as l cs where root: "root = Element n as l cs"
    by (cases root) (simp_all add: isElement_def)
  let ?f' = "if cssPosition l \<noteq> ''static'' then True else f"
  have "(i # q) \<in> set (findElementsToOffsetHelper px root f) \<longleftrightarrow>
      \<not> overlayElement root \<and> (i # q) \<in> set (findElementsToOffsetLoop px cs 0 ?f')"
    by (auto simp: root Let_def)
  also have "\<dots> \<longleftrightarrow> \<not> overlayElement root \<and> i < length cs \<and> isElement (cs ! i) \<and>
      q \<in> set (findElementsToOffsetHelper px (cs ! i) ?f')"
    by (simp add: findElementsToOffsetLoop_mem)
  also have "\<dots> \<longleftrightarrow> \<not> overlayElement root \<and> i < length cs \<and> isElement (cs ! i) \<and>
      offsetCandidateFrom px ?f' (cs ! i) q"
    using Cons.IH by blast
  also have "\<dots> \<longleftrightarrow> \<not> overlayElement root \<and> i < length cs \<and> offsetCandidateFrom px ?f' (cs ! i) q"
    using offsetCandidateFrom_isElement by blast
  also have "\<dots> \<longleftrightarrow> offsetCandidateFrom px f root (i # q)"
    by (simp add: offsetCandidateFrom_Cons root)
  finally show ?case .
qed

lemma offsetCandidate_From:
  "offsetCandidate px root q = offsetCandidateFrom px False root q"
  by (auto simp: offsetCandidate_def offsetCandidateFrom_def split: option.splits)


lemma findElementsToOffset_below_body:
  assumes "p \<in> set (findElementsToOffset px doc)"
  shows "\<exists>b bodyNode q. body doc = Some b \<and> nodeAt doc b = Some bodyNode \<and> p = b @ q \<and>
           offsetCandidate px bodyNode q"
proof -
  from assms obtain b where b: "body doc = Some b"
    by (cases "body doc") (simp_all add: findElementsToOffset_def)
  from assms b obtain bodyNode where n: "nodeAt doc b = Some bodyNode"
    by (cases "nodeAt doc b") (simp_all add: findElementsToOffset_def)
  from assms b n obtain q where q: "p = b @ q" "q \<in> set (findElementsToOffsetHelper px bodyNode False)"
    by (auto simp: findElementsToOffset_def)
  obtain n' where "nodeAt doc b = Some n'" "isElement n'" using b by (rule body_node)
  then have "isElement bodyNode" using n by simp
  then have "offsetCandidateFrom px False bodyNode q"
    using q(2) by (simp add: findElementsToOffsetHelper_mem)
  then have "offsetCandidate px bodyNode q"
    by (simp add: offsetCandidate_From)
  then show ?thesis using b n q(1) by blast
qed



subsection \<open>The header redraw\<close>

lemma tracked_offsetTop [simp]: "tracked (offsetTop c old new el) = tracked el"
  by (simp add: tracked_def offsetTop_def split: option.splits)





end
